theory Spec2Isabelle
  imports Complex_Main "HOL-Library.Word" "HOL-Library.Product_Lexorder"
begin

section \<open>Block-index algebra (src/matrix-view.cc)\<close>

text \<open>
  A segment is the pair \<open>(first, second)\<close> = (start, length) of the C++
  \<^verbatim>\<open>std::pair<size_type, size_type>\<close>. \<^verbatim>\<open>size_type\<close> is a signed index type, so
  both components are modelled as \<open>int\<close>; overflow of the 64-bit index is not
  modelled (indices address rows and columns of dense matrices).
\<close>

type_synonym segment_t = "int \<times> int"
type_synonym segments_t = "segment_t list"

text \<open>\<^verbatim>\<open>BlockIndex::overlap\<close>, lines 43-54.\<close>

definition overlap :: "segment_t \<Rightarrow> segment_t \<Rightarrow> bool" where
  "overlap a b =
     (if snd a = 0 then False
      else if snd b = 0 then False
      else
        (let aend = fst a + snd a;
             bend = fst b + snd b
         in if fst a \<le> fst b \<and> fst b < aend then True
            else if fst a < bend \<and> bend \<le> aend then True
            else False))"

text \<open>\<^verbatim>\<open>BlockIndex::cardinal\<close>, lines 56-62.\<close>

fun cardinal :: "segments_t \<Rightarrow> int" where
  "cardinal [] = 0"
| "cardinal (s # ss) = snd s + cardinal ss"

text \<open>
  \<^verbatim>\<open>BlockIndex::sum\<close> on two segments, lines 64-75. The source calls itself with
  the arguments swapped when \<open>a.first > b.first\<close>; the swapped call takes the
  other branch.
\<close>

function sum_seg :: "segment_t \<Rightarrow> segment_t \<Rightarrow> segments_t" where
  "sum_seg a b =
     (if fst a > fst b then sum_seg b a
      else if fst a + snd a \<ge> fst b
           then [(fst a, max (snd a) (fst b + snd b - fst a))]
           else [a, b])"
  by pat_completeness auto
termination
  by (relation "measure (\<lambda>(a, b). if fst a > fst b then 1 else 0)") auto

text \<open>\<^verbatim>\<open>BlockIndex::difference\<close> on two segments, lines 77-96.\<close>

definition difference :: "segment_t \<Rightarrow> segment_t \<Rightarrow> segments_t" where
  "difference a b =
     (if snd a = 0 then []
      else if snd b = 0 then [a]
      else
        (let aend = fst a + snd a;
             bend = fst b + snd b;
             diffs1 = (if fst a < fst b
                       then [(fst a, min aend (fst b) - fst a)] else []);
             diffs2 = (if bend < aend
                       then [(max (fst a) bend, aend - max (fst a) bend)] else [])
         in diffs1 @ diffs2))"

text \<open>
  \<^verbatim>\<open>BlockIndex::sort\<close>, lines 20-23: \<^verbatim>\<open>std::sort\<close> with the full comparison (by start,
  then by length), which is the lexicographic order on pairs.
\<close>

definition sort_segs :: "segments_t \<Rightarrow> segments_t" where
  "sort_segs a = sort_key (\<lambda>s. s) a"

text \<open>
  \<^verbatim>\<open>BlockIndex::shrink\<close>, lines 25-41. \<open>e1\<close> is the segment the iterator \<^verbatim>\<open>e1\<close>
  points to, the list holds what is left from \<^verbatim>\<open>e2\<close> on. The comparison
  \<^verbatim>\<open>BlockIndexComp<false, true>\<close> is declared in the header: it holds when the end
  of its left argument is before the start of its right argument.
\<close>

definition lend_before_rstart :: "segment_t \<Rightarrow> segment_t \<Rightarrow> bool" where
  "lend_before_rstart l r = (fst l + snd l < fst r)"

fun shrink_from :: "segment_t \<Rightarrow> segments_t \<Rightarrow> segments_t" where
  "shrink_from e1 [] = [e1]"
| "shrink_from e1 (e2 # rest) =
     (if \<not> lend_before_rstart e1 e2
      then shrink_from (fst e1, max (snd e1) (fst e2 + snd e2 - fst e1)) rest
      else e1 # shrink_from e2 rest)"

fun shrink :: "segments_t \<Rightarrow> segments_t" where
  "shrink [] = []"
| "shrink (e1 # rest) = shrink_from e1 rest"

section \<open>Values, vectors and matrices\<close>

text \<open>
  \<^verbatim>\<open>value_type\<close> is \<^verbatim>\<open>double\<close>; in the linear algebra of the solver it is modelled
  by the reals, so rounding, infinities and NaN are outside that part of the model
  (the saturation below keeps them). A dense matrix is the list of its rows.
\<close>

type_synonym value_type = real
type_synonym vector_t = "value_type list"
type_synonym matrix_t = "value_type list list"

text \<open>\<^verbatim>\<open>std::numeric_limits<double>::max()\<close>, the largest finite \<^verbatim>\<open>double\<close>
  \<open>(2 - 2\<^sup>-\<^sup>5\<^sup>2) * 2\<^sup>1\<^sup>0\<^sup>2\<^sup>3\<close>, written out.\<close>

definition value_type_max :: value_type where
  "value_type_max = 179769313486231570814527423731704356798070567525844996598917476803157260780028538760589558632766878171540458953514382464234321326889464182768467546703537516986049910576551282076245490090389328944075868508455133942304583236903222948165808559332123348274797826204144723168738177180919299881250404026184124858368"

definition rows :: "matrix_t \<Rightarrow> nat" where
  "rows m = length m"

definition cols :: "matrix_t \<Rightarrow> nat" where
  "cols m = (case m of [] \<Rightarrow> 0 | r # _ \<Rightarrow> length r)"

definition squaredNorm :: "vector_t \<Rightarrow> value_type" where
  "squaredNorm v = sum_list (map (\<lambda>x. x * x) v)"

definition dot :: "vector_t \<Rightarrow> vector_t \<Rightarrow> value_type" where
  "dot u v = sum_list (map2 (*) u v)"

definition vec_add :: "vector_t \<Rightarrow> vector_t \<Rightarrow> vector_t" where
  "vec_add u v = map2 (+) u v"

definition vec_sub :: "vector_t \<Rightarrow> vector_t \<Rightarrow> vector_t" where
  "vec_sub u v = map2 (-) u v"

definition mat_vec :: "matrix_t \<Rightarrow> vector_t \<Rightarrow> vector_t" where
  "mat_vec m v = map (\<lambda>r. dot r v) m"

definition column :: "matrix_t \<Rightarrow> nat \<Rightarrow> vector_t" where
  "column m j = map (\<lambda>r. r ! j) m"

definition mat_mul :: "matrix_t \<Rightarrow> matrix_t \<Rightarrow> matrix_t" where
  "mat_mul a b = map (\<lambda>r. map (\<lambda>j. dot r (column b j)) [0..<cols b]) a"

text \<open>What the model returns where the C++ reads or writes out of bounds, and the
  exception thrown by \<^verbatim>\<open>add\<close>.\<close>

datatype error = OutOfBounds | logic_error string

section \<open>Comparison types (src/solver/hierarchical-iterative.cc, lines 55-82)\<close>

datatype ComparisonType = Equality | EqualToZero | Superior | Inferior

type_synonym ComparisonTypes_t = "ComparisonType list"

text \<open>
  \<^verbatim>\<open>compare<Superior, ComputeJac>\<close>: the two template flags are the first two
  arguments; the value and the Jacobian row, modified in place by the source, are
  returned.
\<close>

definition compare ::
  "bool \<Rightarrow> bool \<Rightarrow> value_type \<Rightarrow> vector_t \<Rightarrow> value_type \<Rightarrow> value_type \<times> vector_t" where
  "compare superior ComputeJac val jac thr =
     (if (superior \<and> val < thr) \<or> (\<not> superior \<and> - thr < val)
      then (if superior then val - thr else val + thr, jac)
      else (0, if ComputeJac then replicate (length jac) 0 else jac))"

text \<open>
  \<^verbatim>\<open>applyComparison<ComputeJac>\<close>: the loop over \<^verbatim>\<open>indices\<close>. An index outside the
  comparison vector, the value vector or the rows of the Jacobian is \<open>OutOfBounds\<close>.
\<close>

fun applyComparison ::
  "bool \<Rightarrow> ComparisonTypes_t \<Rightarrow> nat list \<Rightarrow> vector_t \<Rightarrow> matrix_t \<Rightarrow> value_type
     \<Rightarrow> error + (vector_t \<times> matrix_t)" where
  "applyComparison ComputeJac comparison [] val jacobian thr = Inr (val, jacobian)"
| "applyComparison ComputeJac comparison (j # indices) val jacobian thr =
     (if \<not> j < length comparison then Inl OutOfBounds
      else if comparison ! j = Superior then
        (if j < length val \<and> j < length jacobian
         then (case compare True ComputeJac (val ! j) (jacobian ! j) thr of
                 (v, r) \<Rightarrow> applyComparison ComputeJac comparison indices
                             (val[j := v]) (jacobian[j := r]) thr)
         else Inl OutOfBounds)
      else if comparison ! j = Inferior then
        (if j < length val \<and> j < length jacobian
         then (case compare False ComputeJac (val ! j) (jacobian ! j) thr of
                 (v, r) \<Rightarrow> applyComparison ComputeJac comparison indices
                             (val[j := v]) (jacobian[j := r]) thr)
         else Inl OutOfBounds)
      else applyComparison ComputeJac comparison indices val jacobian thr)"

section \<open>Saturation (lines 114-145)\<close>

text \<open>
  The saturation is stated for every configuration, and a coordinate of a
  configuration is a \<^verbatim>\<open>double\<close>. \<^verbatim>\<open>clamp\<close> only compares and copies its arguments,
  so here a \<^verbatim>\<open>double\<close> is kept with its values outside the reals: NaN, the two
  infinities, or a number. The comparisons are those of IEEE 754: NaN is unordered,
  so every comparison with NaN is false.
\<close>

datatype double = NaN | MInf | Num real | PInf

text \<open>\<^verbatim>\<open>a <= b\<close>, \<^verbatim>\<open>a < b\<close> and \<^verbatim>\<open>a >= b\<close> on \<^verbatim>\<open>double\<close>.\<close>

fun le_double :: "double \<Rightarrow> double \<Rightarrow> bool" where
  "le_double NaN b = False"
| "le_double a NaN = False"
| "le_double MInf b = True"
| "le_double a PInf = True"
| "le_double (Num x) (Num y) = (x \<le> y)"
| "le_double a b = False"

fun lt_double :: "double \<Rightarrow> double \<Rightarrow> bool" where
  "lt_double NaN b = False"
| "lt_double a NaN = False"
| "lt_double PInf b = False"
| "lt_double a MInf = False"
| "lt_double (Num x) (Num y) = (x < y)"
| "lt_double a b = True"

definition ge_double :: "double \<Rightarrow> double \<Rightarrow> bool" where
  "ge_double a b = le_double b a"

text \<open>\<^verbatim>\<open>saturation::clamp\<close>, lines 122-137: returns the flag, \<^verbatim>\<open>vsat\<close> and \<^verbatim>\<open>s\<close>.\<close>

definition clamp :: "double \<Rightarrow> double \<Rightarrow> double \<Rightarrow> bool \<times> double \<times> int" where
  "clamp lb ub v =
     (if le_double v lb then (True, lb, - 1)
      else if ge_double v ub then (True, ub, 1)
      else (False, v, 0))"

text \<open>\<^verbatim>\<open>saturation::Base::saturate\<close>: \<^verbatim>\<open>qSat = q\<close>, \<^verbatim>\<open>saturation.setZero()\<close>.\<close>

definition Base_saturate ::
  "double list \<Rightarrow> double list \<Rightarrow> int list \<Rightarrow> bool \<times> double list \<times> int list" where
  "Base_saturate q qSat saturation = (False, q, replicate (length saturation) 0)"

text \<open>
  \<^verbatim>\<open>saturation::Bounds::saturate\<close>: the loop from index \<open>i\<close> on, with the flag
  \<^verbatim>\<open>sat\<close> so far. \<open>lb\<close> and \<open>ub\<close> are the members of \<^verbatim>\<open>Bounds\<close>. Reading a bound
  or writing \<^verbatim>\<open>qSat\<close> or \<^verbatim>\<open>saturation\<close> past its end is \<open>OutOfBounds\<close>.
\<close>

function Bounds_saturate_from ::
  "double list \<Rightarrow> double list \<Rightarrow> double list \<Rightarrow> nat \<Rightarrow> double list \<Rightarrow> int list \<Rightarrow> bool
     \<Rightarrow> error + (bool \<times> double list \<times> int list)" where
  "Bounds_saturate_from lb ub q i qSat saturation sat =
     (if i < length q then
        (if i < length lb \<and> i < length ub \<and> i < length qSat \<and> i < length saturation
         then (case clamp (lb ! i) (ub ! i) (q ! i) of
                 (c, vsat, s) \<Rightarrow>
                   Bounds_saturate_from lb ub q (i + 1) (qSat[i := vsat]) (saturation[i := s])
                     (if c then True else sat))
         else Inl OutOfBounds)
      else Inr (sat, qSat, saturation))"
  by pat_completeness auto
termination
  by (relation "measure (\<lambda>(lb, ub, q, i, qSat, saturation, sat). length q - i)") auto

definition Bounds_saturate ::
  "double list \<Rightarrow> double list \<Rightarrow> double list \<Rightarrow> double list \<Rightarrow> int list
     \<Rightarrow> error + (bool \<times> double list \<times> int list)" where
  "Bounds_saturate lb ub q qSat saturation = Bounds_saturate_from lb ub q 0 qSat saturation False"

section \<open>Collaborators of the solver\<close>

text \<open>
  The classes below are declared in headers and libraries that the solver uses
  (\<^verbatim>\<open>LiegroupSpace\<close>, \<^verbatim>\<open>DifferentiableFunction\<close>, \<^verbatim>\<open>Implicit\<close>,
  \<^verbatim>\<open>ImplicitConstraintSet\<close>, \<^verbatim>\<open>Eigen::MatrixBlocks\<close>, \<^verbatim>\<open>Eigen::JacobiSVD\<close>). Each is
  modelled by the data the solver reads from it.
\<close>

record LiegroupSpace =
  nq :: nat
  nv :: nat
  neutral :: vector_t

definition LiegroupSpace_empty :: LiegroupSpace where
  "LiegroupSpace_empty = \<lparr>nq = 0, nv = 0, neutral = []\<rparr>"

record LiegroupElement =
  space :: LiegroupSpace
  vector :: vector_t

text \<open>\<^verbatim>\<open>LiegroupElement(space)\<close>: a vector of \<open>nq\<close> coordinates; the source leaves
  them uninitialised, the model fills them with 0.\<close>

definition LiegroupElement_of :: "LiegroupSpace \<Rightarrow> LiegroupElement" where
  "LiegroupElement_of sp = \<lparr>space = sp, vector = replicate (nq sp) 0\<rparr>"

definition setNeutral :: "LiegroupElement \<Rightarrow> LiegroupElement" where
  "setNeutral e = e\<lparr>vector := neutral (space e)\<rparr>"

record DifferentiableFunction =
  name :: string
  inputSize :: nat
  inputDerivativeSize :: nat
  outputSpace :: LiegroupSpace
  activeDerivativeParameters :: "bool list"

definition outputSize :: "DifferentiableFunction \<Rightarrow> nat" where
  "outputSize f = nq (outputSpace f)"

definition outputDerivativeSize :: "DifferentiableFunction \<Rightarrow> nat" where
  "outputDerivativeSize f = nv (outputSpace f)"

text \<open>
  A shared pointer is the pair of an address and the object it points to: the
  \<^verbatim>\<open>std::map\<close>s of the solver are keyed by the address, while \<^verbatim>\<open>*p == *q\<close> compares
  the objects by value.
\<close>

type_synonym 'a ptr = "nat \<times> 'a"

definition addr :: "'a ptr \<Rightarrow> nat" where
  "addr p = fst p"

definition deref :: "'a ptr \<Rightarrow> 'a" where
  "deref p = snd p"

type_synonym DifferentiableFunctionPtr_t = "DifferentiableFunction ptr"

text \<open>\<^verbatim>\<open>m[k] = v\<close> on a \<^verbatim>\<open>std::map\<close> keyed by pointers, kept in the order of the
  addresses.\<close>

fun map_assign :: "'a ptr \<Rightarrow> 'v \<Rightarrow> ('a ptr \<times> 'v) list \<Rightarrow> ('a ptr \<times> 'v) list" where
  "map_assign k v [] = [(k, v)]"
| "map_assign k v ((k', v') # m) =
     (if addr k = addr k' then (k', v) # m
      else if addr k < addr k' then (k, v) # (k', v') # m
      else (k', v') # map_assign k v m)"

record Implicit =
  functionPtr :: DifferentiableFunctionPtr_t
  comparisonType :: ComparisonTypes_t
  activeRows :: segments_t

text \<open>
  An \<^verbatim>\<open>ImplicitConstraintSet\<close> is the list of its constraints; its function is the
  stack of their functions, whose output space is the product of their output
  spaces.
\<close>

type_synonym ImplicitConstraintSet = "Implicit list"

definition ics_outputSpace :: "ImplicitConstraintSet \<Rightarrow> LiegroupSpace" where
  "ics_outputSpace ics =
     \<lparr>nq = sum_list (map (\<lambda>c. outputSize (deref (functionPtr c))) ics),
      nv = sum_list (map (\<lambda>c. outputDerivativeSize (deref (functionPtr c))) ics),
      neutral = concat (map (\<lambda>c. neutral (outputSpace (deref (functionPtr c)))) ics)\<rparr>"

definition ics_outputDerivativeSize :: "ImplicitConstraintSet \<Rightarrow> nat" where
  "ics_outputDerivativeSize ics = nv (ics_outputSpace ics)"

definition ics_inputDerivativeSize :: "ImplicitConstraintSet \<Rightarrow> nat" where
  "ics_inputDerivativeSize ics =
     (case ics of [] \<Rightarrow> 0 | c # _ \<Rightarrow> inputDerivativeSize (deref (functionPtr c)))"

text \<open>
  \<^verbatim>\<open>Eigen::MatrixBlocks\<close>: the row and column segments with their cardinals.
  \<^verbatim>\<open>addRow\<close> appends a segment; \<^verbatim>\<open>updateRows<true, true, true>\<close> sorts, shrinks and
  recounts the rows with the functions of src/matrix-view.cc.
\<close>

record MatrixBlocks =
  m_nbRows :: int
  m_nbCols :: int
  m_rows :: segments_t
  m_cols :: segments_t

definition MatrixBlocks_empty :: MatrixBlocks where
  "MatrixBlocks_empty = \<lparr>m_nbRows = 0, m_nbCols = 0, m_rows = [], m_cols = []\<rparr>"

definition MatrixBlocks_of :: "segments_t \<Rightarrow> segments_t \<Rightarrow> MatrixBlocks" where
  "MatrixBlocks_of rs cs =
     \<lparr>m_nbRows = cardinal rs, m_nbCols = cardinal cs, m_rows = rs, m_cols = cs\<rparr>"

definition addRow :: "int \<Rightarrow> int \<Rightarrow> MatrixBlocks \<Rightarrow> MatrixBlocks" where
  "addRow row nrows mb =
     mb\<lparr>m_rows := m_rows mb @ [(row, nrows)], m_nbRows := m_nbRows mb + nrows\<rparr>"

definition updateRows :: "MatrixBlocks \<Rightarrow> MatrixBlocks" where
  "updateRows mb =
     (let r = shrink (sort_segs (m_rows mb)) in mb\<lparr>m_rows := r, m_nbRows := cardinal r\<rparr>)"

definition nbRows :: "MatrixBlocks \<Rightarrow> int" where
  "nbRows mb = m_nbRows mb"

definition nbIndices :: "MatrixBlocks \<Rightarrow> int" where
  "nbIndices mb = m_nbRows mb"

definition indices :: "MatrixBlocks \<Rightarrow> segments_t" where
  "indices mb = m_rows mb"

text \<open>The coordinates selected by a list of segments, in order.\<close>

definition segment_indices :: "segment_t \<Rightarrow> nat list" where
  "segment_indices s = map nat [fst s .. fst s + snd s - 1]"

definition flat_indices :: "segments_t \<Rightarrow> nat list" where
  "flat_indices segs = concat (map segment_indices segs)"

text \<open>
  Modelled from the spec: the block views of matrix-view.hh, which is not among the
  sources. ``\<open>rview(vector)\<close> returns a contiguous gather (keep semantics)'':
  \<open>rview\<close> reads the selected coordinates in order. ``Writable views propagate
  assignments scatter-wise'': \<open>assign_rows\<close> writes the \<open>k\<close>-th coordinate of the
  right-hand side at the \<open>k\<close>-th selected coordinate and leaves every other
  coordinate as it is. \<open>segments_within segs n\<close> holds when every segment selects
  coordinates of a vector of size \<open>n\<close>; the solver's functions below return
  \<open>OutOfBounds\<close> where they would view a vector that is too short.
\<close>

definition segments_within :: "segments_t \<Rightarrow> nat \<Rightarrow> bool" where
  "segments_within segs n =
     list_all (\<lambda>sg. 0 \<le> fst sg \<and> 0 \<le> snd sg \<and> fst sg + snd sg \<le> int n) segs"

definition rview :: "segments_t \<Rightarrow> 'a list \<Rightarrow> 'a list" where
  "rview segs v = map (\<lambda>i. v ! i) (flat_indices segs)"

fun assign_at :: "nat list \<Rightarrow> 'a list \<Rightarrow> 'a list \<Rightarrow> 'a list" where
  "assign_at [] v src = v"
| "assign_at (i # is) v src = assign_at is (v[i := hd src]) (tl src)"

definition assign_rows :: "segments_t \<Rightarrow> 'a list \<Rightarrow> 'a list \<Rightarrow> 'a list" where
  "assign_rows segs v src = assign_at (flat_indices segs) v src"

text \<open>
  \<^verbatim>\<open>Eigen::JacobiSVD\<close>: the object holds its sizes, its options and threshold and,
  once \<^verbatim>\<open>compute\<close> has run, the rank, the singular values and the factors \<open>U\<close> and
  \<open>V\<close>.
\<close>

datatype ComputationOption = ComputeThinU | ComputeThinV | ComputeFullV

record SVD_t =
  svd_rows :: nat
  svd_cols :: nat
  computationOptions :: "ComputationOption list"
  threshold :: "value_type option"
  isInitialized :: bool
  rank :: nat
  singularValues :: vector_t
  matrixU :: matrix_t
  matrixV :: matrix_t

definition SVD_of :: "nat \<Rightarrow> nat \<Rightarrow> ComputationOption list \<Rightarrow> SVD_t" where
  "SVD_of r c opts =
     \<lparr>svd_rows = r, svd_cols = c, computationOptions = opts, threshold = None,
      isInitialized = False, rank = 0, singularValues = [], matrixU = [], matrixV = []\<rparr>"

definition setThreshold :: "value_type \<Rightarrow> SVD_t \<Rightarrow> SVD_t" where
  "setThreshold t sv = sv\<lparr>threshold := Some t\<rparr>"

definition SVD_THRESHOLD :: value_type where
  "SVD_THRESHOLD = 1 / 10 ^ 8"

text \<open>
  The numerical routines of Eigen are a parameter of the model: \<open>compute\<close> is
  \<^verbatim>\<open>JacobiSVD::compute\<close> (from the configured object and a matrix to the decomposed
  object), \<open>solve\<close> is \<^verbatim>\<open>JacobiSVD::solve\<close>. Nothing is assumed about them.
\<close>

record JacobiSVD =
  compute :: "SVD_t \<Rightarrow> matrix_t \<Rightarrow> SVD_t"
  solve :: "SVD_t \<Rightarrow> vector_t \<Rightarrow> vector_t"

text \<open>
  Modelled from the spec: \<^verbatim>\<open>getV2\<close> of svd.hh, which is not among the sources.
  ``\<open>V_2\<close> is the last \<open>ncols - rank\<close> columns of the \<open>V\<close> factor (the right
  nullspace basis).''
\<close>

definition getV2 :: "SVD_t \<Rightarrow> nat \<Rightarrow> matrix_t" where
  "getV2 sv r = map (drop r) (matrixV sv)"

text \<open>\<^verbatim>\<open>resize\<close> of a vector or a matrix: the source leaves the coefficients
  uninitialised when the size changes, the model fills them with 0.\<close>

definition resize_vec :: "nat \<Rightarrow> vector_t \<Rightarrow> vector_t" where
  "resize_vec n v = (if length v = n then v else replicate n 0)"

definition Zero_mat :: "nat \<Rightarrow> nat \<Rightarrow> matrix_t" where
  "Zero_mat r c = replicate r (replicate c 0)"

definition resize_mat :: "nat \<Rightarrow> nat \<Rightarrow> matrix_t \<Rightarrow> matrix_t" where
  "resize_mat r c m = (if rows m = r \<and> (\<forall>x \<in> set m. length x = c) then m else Zero_mat r c)"


section \<open>The solver state (src/solver/hierarchical-iterative.cc)\<close>

text \<open>\<^verbatim>\<open>HierarchicalIterative::Data\<close>, the storage of one priority level.\<close>

record Data =
  "output" :: LiegroupElement
  rightHandSide :: LiegroupElement
  error :: vector_t
  jacobian :: matrix_t
  reducedJ :: matrix_t
  svd :: SVD_t
  PK :: matrix_t
  maxRank :: nat
  comparison :: ComparisonTypes_t
  inequalityIndices :: "nat list"
  equalityIndices :: MatrixBlocks
  activeRowsOfJ :: MatrixBlocks

text \<open>The value of \<^verbatim>\<open>Data()\<close>, with which \<^verbatim>\<open>add\<close> fills new levels.\<close>

definition Data_default :: Data where
  "Data_default =
     \<lparr>output = LiegroupElement_of LiegroupSpace_empty,
      rightHandSide = LiegroupElement_of LiegroupSpace_empty,
      error = [], jacobian = [], reducedJ = [],
      svd = SVD_of 0 0 [], PK = [], maxRank = 0,
      comparison = [], inequalityIndices = [],
      equalityIndices = MatrixBlocks_empty, activeRowsOfJ = MatrixBlocks_empty\<rparr>"

text \<open>The saturation policies of lines 114-145 (\<^verbatim>\<open>Device\<close>, which reads a robot
  model, is left out).\<close>

datatype Saturation = Base | Bounds "double list" "double list"

text \<open>
  The class \<^verbatim>\<open>HierarchicalIterative\<close>: a member \<^verbatim>\<open>x_\<close> of the source is the
  field \<open>x_m\<close> of the record.
\<close>

record HierarchicalIterative =
  squaredErrorThreshold_m :: value_type
  inequalityThreshold_m :: value_type
  maxIterations_m :: nat
  stacks_m :: "ImplicitConstraintSet list"
  configSpace_m :: LiegroupSpace
  dimension_m :: int
  reducedDimension_m :: int
  lastIsOptional_m :: bool
  solveLevelByLevel_m :: bool
  freeVariables_m :: MatrixBlocks
  saturate_m :: Saturation
  constraints_m :: "Implicit list"
  iq_m :: "(DifferentiableFunctionPtr_t \<times> nat) list"
  iv_m :: "(DifferentiableFunctionPtr_t \<times> nat) list"
  priority_m :: "(DifferentiableFunctionPtr_t \<times> nat) list"
  sigma_m :: value_type
  dq_m :: vector_t
  dqSmall_m :: vector_t
  reducedJ_m :: matrix_t
  saturation_m :: "int list"
  reducedSaturation_m :: "int list"
  qSat_m :: vector_t
  tmpSat_m :: "bool list"
  squaredNorm_m :: value_type
  datas_m :: "Data list"
  svd_m :: SVD_t
  OM_m :: vector_t
  OP_m :: vector_t

text \<open>The constructor, lines 180-212.\<close>

definition HierarchicalIterative_of :: "LiegroupSpace \<Rightarrow> HierarchicalIterative" where
  "HierarchicalIterative_of configSpace =
     \<lparr>squaredErrorThreshold_m = 0,
      inequalityThreshold_m = 0,
      maxIterations_m = 0,
      stacks_m = [],
      configSpace_m = configSpace,
      dimension_m = 0,
      reducedDimension_m = 0,
      lastIsOptional_m = False,
      solveLevelByLevel_m = False,
      freeVariables_m = addRow 0 (int (nv configSpace)) MatrixBlocks_empty,
      saturate_m = Base,
      constraints_m = [],
      iq_m = [],
      iv_m = [],
      priority_m = [],
      sigma_m = 0,
      dq_m = [],
      dqSmall_m = [],
      reducedJ_m = [],
      saturation_m = replicate (nv configSpace) 0,
      reducedSaturation_m = [],
      qSat_m = replicate (nq configSpace) 0,
      tmpSat_m = [],
      squaredNorm_m = 0,
      datas_m = [],
      svd_m = SVD_of 0 0 [],
      OM_m = replicate (nv configSpace) 0,
      OP_m = replicate (nv configSpace) 0\<rparr>"

text \<open>
  \<^verbatim>\<open>computeActiveRowsOfJ\<close>, lines 388-413: the loop over the functions of the stack
  (with the rows collected so far and the offset), then the function.
\<close>

function activeRows_from ::
  "MatrixBlocks \<Rightarrow> Implicit list \<Rightarrow> nat \<Rightarrow> segments_t \<Rightarrow> error + segments_t" where
  "activeRows_from fv [] offset rs = Inr rs"
| "activeRows_from fv (c # cs) offset rs =
     (let f = deref (functionPtr c)
      in if \<not> segments_within (m_rows fv) (length (activeDerivativeParameters f))
         then Inl OutOfBounds
         else
           (let adp = rview (m_rows fv) (activeDerivativeParameters f);
                rs' = (if list_ex (\<lambda>b. b) adp
                       then rs @ map (\<lambda>sg. (fst sg + int offset, snd sg)) (activeRows c)
                       else rs)
            in activeRows_from fv cs (offset + outputDerivativeSize f) rs'))"
  by pat_completeness auto
termination
  by (relation "measure (\<lambda>(fv, cs, offset, rs). length cs)") auto

definition computeActiveRowsOfJ ::
  "nat \<Rightarrow> HierarchicalIterative \<Rightarrow> error + HierarchicalIterative" where
  "computeActiveRowsOfJ iStack s =
     (if iStack < length (datas_m s) \<and> iStack < length (stacks_m s) then
        (case activeRows_from (freeVariables_m s) (stacks_m s ! iStack) 0 [] of
           Inl e \<Rightarrow> Inl e
         | Inr rs \<Rightarrow>
             (let d = datas_m s ! iStack;
                  d' = d\<lparr>activeRowsOfJ :=
                           updateRows (MatrixBlocks_of rs (m_rows (freeVariables_m s)))\<rparr>
              in Inr (s\<lparr>datas_m := (datas_m s)[iStack := d']\<rparr>)))
      else Inl OutOfBounds)"

text \<open>
  \<^verbatim>\<open>update\<close>, lines 343-386: the body of the loop for level \<open>i\<close>, the loop (where
  \<open>n\<close> is \<^verbatim>\<open>stacks_.size()\<close>, which the loop does not change), and the function.
\<close>

definition update_level ::
  "nat \<Rightarrow> nat \<Rightarrow> HierarchicalIterative \<Rightarrow> error + HierarchicalIterative" where
  "update_level reducedSize i s =
     (case computeActiveRowsOfJ i s of
        Inl e \<Rightarrow> Inl e
      | Inr s1 \<Rightarrow>
          (let f = stacks_m s1 ! i;
               d = datas_m s1 ! i;
               nr = nat (nbRows (activeRowsOfJ d));
               d' = d\<lparr>output := LiegroupElement_of (ics_outputSpace f),
                      rightHandSide := setNeutral (LiegroupElement_of (ics_outputSpace f)),
                      error := resize_vec (nv (ics_outputSpace f)) (error d),
                      jacobian := Zero_mat (ics_outputDerivativeSize f) (ics_inputDerivativeSize f),
                      reducedJ := resize_mat nr reducedSize (reducedJ d),
                      svd := setThreshold SVD_THRESHOLD
                               (SVD_of (ics_outputDerivativeSize f) reducedSize
                                  [ComputeThinU,
                                   if i = length (stacks_m s1) - 1 then ComputeThinV
                                   else ComputeFullV]),
                      PK := resize_mat reducedSize reducedSize (PK d),
                      maxRank := 0\<rparr>
           in Inr (s1\<lparr>dimension_m := dimension_m s1 + int (ics_outputDerivativeSize f),
                       reducedDimension_m := reducedDimension_m s1 + nbRows (activeRowsOfJ d),
                       datas_m := (datas_m s1)[i := d']\<rparr>)))"

function update_from ::
  "nat \<Rightarrow> nat \<Rightarrow> nat \<Rightarrow> HierarchicalIterative \<Rightarrow> error + HierarchicalIterative" where
  "update_from reducedSize n i s =
     (if i < n then
        (case update_level reducedSize i s of
           Inl e \<Rightarrow> Inl e
         | Inr s' \<Rightarrow> update_from reducedSize n (i + 1) s')
      else Inr s)"
  by pat_completeness auto
termination
  by (relation "measure (\<lambda>(reducedSize, n, i, s). n - i)") auto

declare update_from.simps [simp del]

definition update :: "HierarchicalIterative \<Rightarrow> error + HierarchicalIterative" where
  "update s =
     (let reducedSize = nat (nbIndices (freeVariables_m s))
      in case update_from reducedSize (length (stacks_m s)) 0
                (s\<lparr>dimension_m := 0, reducedDimension_m := 0\<rparr>) of
           Inl e \<Rightarrow> Inl e
         | Inr s' \<Rightarrow>
             Inr (s'\<lparr>dq_m := replicate (nv (configSpace_m s')) 0,
                     dqSmall_m := resize_vec reducedSize (dqSmall_m s'),
                     reducedJ_m := resize_mat (nat (reducedDimension_m s')) reducedSize (reducedJ_m s'),
                     svd_m := SVD_of (nat (reducedDimension_m s')) reducedSize
                               [ComputeThinU, ComputeThinV]\<rparr>))"


text \<open>\<^verbatim>\<open>std::vector::resize(n, x)\<close>.\<close>

definition vector_resize :: "nat \<Rightarrow> 'a \<Rightarrow> 'a list \<Rightarrow> 'a list" where
  "vector_resize n x xs = take n xs @ replicate (n - length xs) x"

text \<open>
  \<^verbatim>\<open>add\<close>, lines 254-294. First the loop of lines 281-288 over the comparison types
  of the new constraint, on the data of its level.
\<close>

function add_comparison :: "ComparisonTypes_t \<Rightarrow> Data \<Rightarrow> Data" where
  "add_comparison [] d = d"
| "add_comparison (c # comp') d =
     (let d1 = (if c = Superior \<or> c = Inferior
                then d\<lparr>inequalityIndices := inequalityIndices d @ [length (comparison d)]\<rparr>
                else if c = Equality
                then d\<lparr>equalityIndices :=
                         addRow (int (length (comparison d))) 1 (equalityIndices d)\<rparr>
                else d)
      in add_comparison comp' (d1\<lparr>comparison := comparison d1 @ [c]\<rparr>))"
  by pat_completeness auto
termination
  by (relation "measure (\<lambda>(comp', d). length comp')") auto

text \<open>
  The function returns what the call returns or throws, together with the solver
  state the call leaves behind. The search of line 257 goes through the priority map
  and compares the functions by value.
\<close>

definition add ::
  "Implicit \<Rightarrow> nat \<Rightarrow> HierarchicalIterative \<Rightarrow> (error + bool) \<times> HierarchicalIterative" where
  "add constraint priority s =
     (let f = functionPtr constraint
      in if find (\<lambda>arg. deref (fst arg) = deref f) (priority_m s) \<noteq> None
         then (Inl (logic_error (''Contraint '' @ [CHR 0x22] @ name (deref f) @ [CHR 0x22]
                                   @ '' already in solver'')), s)
         else
           (let s1 = s\<lparr>priority_m := map_assign f priority (priority_m s)\<rparr>;
                comp' = comparisonType constraint;
                minSize = priority + 1;
                s2 = (if length (stacks_m s1) < minSize
                      then s1\<lparr>stacks_m := vector_resize minSize [] (stacks_m s1),
                              datas_m := vector_resize minSize Data_default (datas_m s1)\<rparr>
                      else s1)
            in if \<not> (priority < length (datas_m s2) \<and> priority < length (stacks_m s2))
               then (Inl OutOfBounds, s2)
               else
                 (let d = datas_m s2 ! priority;
                      s3 = s2\<lparr>iq_m := map_assign f (nq (space (output d))) (iq_m s2)\<rparr>;
                      s4 = s3\<lparr>iv_m := map_assign f (nv (space (output d))) (iv_m s3)\<rparr>;
                      s5 = s4\<lparr>stacks_m :=
                                 (stacks_m s4)[priority := stacks_m s4 ! priority @ [constraint]]\<rparr>;
                      d1 = add_comparison comp' d;
                      d2 = d1\<lparr>equalityIndices := updateRows (equalityIndices d1)\<rparr>;
                      s6 = s5\<lparr>datas_m := (datas_m s5)[priority := d2]\<rparr>;
                      s7 = s6\<lparr>constraints_m := constraints_m s6 @ [constraint]\<rparr>
                  in case update s7 of
                       Inl e \<Rightarrow> (Inl e, s7)
                     | Inr s8 \<Rightarrow> (Inr True, s8))))"

text \<open>
  \<^verbatim>\<open>computeError\<close>, lines 673-689. \<^verbatim>\<open>std::size_t\<close> is a 64-bit word, so that
  \<^verbatim>\<open>stacks_.size() - 1\<close> is computed as the source computes it. The inner loop runs
  over the constraints of one level, with \<^verbatim>\<open>iv\<close> and the norm so far;
  \<^verbatim>\<open>segment(iv, nv)\<close> past the end of the error vector is \<open>OutOfBounds\<close>, and so is
  a level index that is not below the sizes of \<^verbatim>\<open>stacks_\<close> and \<^verbatim>\<open>datas_\<close>.
\<close>

definition segment :: "vector_t \<Rightarrow> nat \<Rightarrow> nat \<Rightarrow> vector_t" where
  "segment v start n = take n (drop start v)"

function computeError_constraints ::
  "Implicit list \<Rightarrow> Data \<Rightarrow> nat \<Rightarrow> value_type \<Rightarrow> error + value_type" where
  "computeError_constraints [] d iv sq = Inr sq"
| "computeError_constraints (c # cs) d iv sq =
     (let n = outputDerivativeSize (deref (functionPtr c))
      in if iv + n \<le> length (error d)
         then computeError_constraints cs d (iv + n)
                (max sq (squaredNorm (segment (error d) iv n)))
         else Inl OutOfBounds)"
  by pat_completeness auto
termination
  by (relation "measure (\<lambda>(cs, d, iv, sq). length cs)") auto

function computeError_levels ::
  "HierarchicalIterative \<Rightarrow> 64 word \<Rightarrow> 64 word \<Rightarrow> value_type \<Rightarrow> error + value_type" where
  "computeError_levels s e i sq =
     (if i < e then
        (if unat i < length (stacks_m s) \<and> unat i < length (datas_m s)
         then (case computeError_constraints (stacks_m s ! unat i) (datas_m s ! unat i) 0 sq of
                 Inl err \<Rightarrow> Inl err
               | Inr sq' \<Rightarrow> computeError_levels s e (i + 1) sq')
         else Inl OutOfBounds)
      else Inr sq)"
  by pat_completeness auto
termination
proof (relation "measure (\<lambda>(s, e, i, sq). unat e - unat i)", goal_cases)
  case 1
  show ?case by simp
next
  case (2 s e i sq sq')
  from \<open>i < e\<close> have "i \<noteq> - 1"
    by (metis word_order.extremum_strict)
  then have "1 + i \<noteq> 0"
    by (metis add.commute add_eq_0_iff)
  then have "unat (i + 1) = Suc (unat i)"
    by (simp add: unatSuc add.commute)
  moreover from \<open>i < e\<close> have "unat i < unat e"
    by (simp add: word_less_nat_alt)
  ultimately show ?case by simp
qed

declare computeError_levels.simps [simp del]

definition computeError :: "HierarchicalIterative \<Rightarrow> error + HierarchicalIterative" where
  "computeError s =
     (let e = (if lastIsOptional_m s
               then (of_nat (length (stacks_m s)) :: 64 word) - 1
               else of_nat (length (stacks_m s)))
      in case computeError_levels s e 0 0 of
           Inl err \<Rightarrow> Inl err
         | Inr sq \<Rightarrow> Inr (s\<lparr>squaredNorm_m := sq\<rparr>))"


text \<open>
  \<^verbatim>\<open>expandDqSmall\<close>, lines 804-807: the view of \<^verbatim>\<open>dq_\<close> on the free variables is
  assigned \<^verbatim>\<open>dqSmall_\<close>. The assignment is \<open>OutOfBounds\<close> when the sizes differ or
  when a segment of the free variables does not lie within \<^verbatim>\<open>dq_\<close>.
\<close>

definition expandDqSmall :: "HierarchicalIterative \<Rightarrow> error + HierarchicalIterative" where
  "expandDqSmall s =
     (let fv = freeVariables_m s
      in if int (length (dqSmall_m s)) = nbIndices fv
            \<and> cardinal (indices fv) = nbIndices fv
            \<and> segments_within (indices fv) (length (dq_m s))
         then Inr (s\<lparr>dq_m := assign_rows (indices fv) (dq_m s) (dqSmall_m s)\<rparr>)
         else Inl OutOfBounds)"

text \<open>
  \<^verbatim>\<open>computeDescentDirection\<close>, lines 723-802. Reading \<^verbatim>\<open>singularValues()[maxRank - 1]\<close>
  past the end of the singular values, gathering rows of the error that it does not
  have, and a level without data are \<open>OutOfBounds\<close>.

  Lines 738-740 and again lines 783-787 (``Update sigma''), for level \<open>i\<close>, once its
  SVD is computed.
\<close>

definition update_sigma :: "nat \<Rightarrow> HierarchicalIterative \<Rightarrow> error + HierarchicalIterative" where
  "update_sigma i s =
     (let d = datas_m s ! i;
          maxRank' = max (maxRank d) (rank (svd d))
      in if 0 < maxRank' \<and> \<not> maxRank' - 1 < length (singularValues (svd d))
         then Inl OutOfBounds
         else Inr (s\<lparr>datas_m := (datas_m s)[i := d\<lparr>maxRank := maxRank'\<rparr>],
                     sigma_m := (if 0 < maxRank'
                                 then min (sigma_m s) (singularValues (svd d) ! (maxRank' - 1))
                                 else sigma_m s)\<rparr>))"

text \<open>The branch for one level, lines 731-740.\<close>

definition descent_single ::
  "JacobiSVD \<Rightarrow> HierarchicalIterative \<Rightarrow> error + HierarchicalIterative" where
  "descent_single E s =
     (if \<not> 0 < length (datas_m s) then Inl OutOfBounds
      else
        (let d = datas_m s ! 0
         in if \<not> segments_within (m_rows (activeRowsOfJ d)) (length (error d))
            then Inl OutOfBounds
            else
              (let svd' = compute E (svd d) (reducedJ d);
                   err = rview (m_rows (activeRowsOfJ d)) (map uminus (error d));
                   dqSmall' = solve E svd' err
               in update_sigma 0
                    (s\<lparr>datas_m := (datas_m s)[0 := d\<lparr>svd := svd'\<rparr>],
                       dqSmall_m := dqSmall'\<rparr>))))"

text \<open>
  The body of the loop of lines 752-799 for a level \<open>i\<close> whose reduced Jacobian has
  rows, in three parts. \<open>projector\<close> is \<open>None\<close> for the null pointer and otherwise
  the matrix pointed to.

  Lines 759-782: the residual \<^verbatim>\<open>err\<close>, the SVD of the level and the new
  \<^verbatim>\<open>dqSmall_\<close>. The result is \<^verbatim>\<open>err\<close> and the new state.
\<close>

definition level_solve ::
  "JacobiSVD \<Rightarrow> nat \<Rightarrow> matrix_t option \<Rightarrow> HierarchicalIterative
     \<Rightarrow> vector_t \<times> HierarchicalIterative" where
  "level_solve E i projector s =
     (let d = datas_m s ! i;
          first = (i = 0);
          err0 = rview (m_rows (activeRowsOfJ d)) (map uminus (error d));
          err = (if first then err0
                 else vec_sub err0 (mat_vec (reducedJ d) (dqSmall_m s)));
          svd' = (if first then compute E (svd d) (reducedJ d)
                  else (case projector of
                          None \<Rightarrow> compute E (svd d) (reducedJ d)
                        | Some P \<Rightarrow> compute E (svd d) (mat_mul (reducedJ d) P)));
          dqSmall' = (if first then solve E svd' err
                      else (case projector of
                              None \<Rightarrow> vec_add (dqSmall_m s) (solve E svd' err)
                            | Some P \<Rightarrow>
                                vec_add (dqSmall_m s) (mat_vec P (solve E svd' err))))
      in (err, s\<lparr>datas_m := (datas_m s)[i := d\<lparr>svd := svd'\<rparr>], dqSmall_m := dqSmall'\<rparr>))"

text \<open>
  Lines 788-798: the three ways to leave the loop and the projector for the next
  level. The result holds the new state, the new projector and whether the loop is
  left by \<^verbatim>\<open>break\<close>.
\<close>

definition level_projector ::
  "nat \<Rightarrow> matrix_t option \<Rightarrow> vector_t \<Rightarrow> HierarchicalIterative
     \<Rightarrow> HierarchicalIterative \<times> matrix_t option \<times> bool" where
  "level_projector i projector err s =
     (let d = datas_m s ! i;
          rk = rank (svd d);
          last = (i = length (stacks_m s) - 1)
      in if solveLevelByLevel_m s \<and> squaredNorm err > squaredErrorThreshold_m s
         then (s, projector, True)
         else if last then (s, projector, True)
         else if cols (matrixV (svd d)) = rk then (s, projector, True)
         else
           (let pk = (case projector of
                        None \<Rightarrow> getV2 (svd d) rk
                      | Some P \<Rightarrow> mat_mul P (getV2 (svd d) rk))
            in (s\<lparr>datas_m := (datas_m s)[i := d\<lparr>PK := pk\<rparr>]\<rparr>, Some pk, False)))"

definition descent_level ::
  "JacobiSVD \<Rightarrow> nat \<Rightarrow> matrix_t option \<Rightarrow> HierarchicalIterative
     \<Rightarrow> error + (HierarchicalIterative \<times> matrix_t option \<times> bool)" where
  "descent_level E i projector s =
     (if \<not> segments_within (m_rows (activeRowsOfJ (datas_m s ! i)))
              (length (error (datas_m s ! i)))
      then Inl OutOfBounds
      else
        (case level_solve E i projector s of
           (err, s1) \<Rightarrow>
             (case update_sigma i s1 of
                Inl e \<Rightarrow> Inl e
              | Inr s2 \<Rightarrow> Inr (level_projector i projector err s2))))"

text \<open>
  The loop of lines 752-799 from level \<open>i\<close> on. \<open>n\<close> is \<^verbatim>\<open>stacks_.size()\<close>, which
  the loop does not change.
\<close>

function descent_levels ::
  "JacobiSVD \<Rightarrow> nat \<Rightarrow> nat \<Rightarrow> matrix_t option \<Rightarrow> HierarchicalIterative
     \<Rightarrow> error + HierarchicalIterative" where
  "descent_levels E n i projector s =
     (if i < n then
        (if \<not> i < length (datas_m s) then Inl OutOfBounds
         else if rows (reducedJ (datas_m s ! i)) = 0
              then descent_levels E n (i + 1) projector s
         else (case descent_level E i projector s of
                 Inl e \<Rightarrow> Inl e
               | Inr (s', projector', brk) \<Rightarrow>
                   if brk then Inr s' else descent_levels E n (i + 1) projector' s'))
      else Inr s)"
  by pat_completeness auto
termination
  by (relation "measure (\<lambda>(E, n, i, projector, s). n - i)") auto

declare descent_levels.simps [simp del]

definition computeDescentDirection ::
  "JacobiSVD \<Rightarrow> HierarchicalIterative \<Rightarrow> error + HierarchicalIterative" where
  "computeDescentDirection E s =
     (let s0 = s\<lparr>sigma_m := value_type_max\<rparr>
      in if stacks_m s0 = [] then Inr (s0\<lparr>dq_m := replicate (length (dq_m s0)) 0\<rparr>)
         else
           (case (if length (stacks_m s0) = 1 then descent_single E s0
                  else descent_levels E (length (stacks_m s0)) 0 None s0) of
              Inl e \<Rightarrow> Inl e
            | Inr s1 \<Rightarrow> expandDqSmall s1))"


text \<open>
  The levels whose SVD a call of \<^verbatim>\<open>computeDescentDirection\<close> computes: level 0 when
  there is one level; otherwise the levels that the loop of lines 752-799 neither
  skips (no rows) nor fails to reach (\<^verbatim>\<open>break\<close>). \<open>visited_levels\<close> follows the
  loop from level \<open>i\<close> on.
\<close>

function visited_levels ::
  "JacobiSVD \<Rightarrow> nat \<Rightarrow> nat \<Rightarrow> matrix_t option \<Rightarrow> HierarchicalIterative \<Rightarrow> nat list" where
  "visited_levels E n i projector s =
     (if i < n then
        (if \<not> i < length (datas_m s) then []
         else if rows (reducedJ (datas_m s ! i)) = 0
              then visited_levels E n (i + 1) projector s
         else (case descent_level E i projector s of
                 Inl e \<Rightarrow> []
               | Inr (s', projector', brk) \<Rightarrow>
                   i # (if brk then [] else visited_levels E n (i + 1) projector' s')))
      else [])"
  by pat_completeness auto
termination
  by (relation "measure (\<lambda>(E, n, i, projector, s). n - i)") auto

declare visited_levels.simps [simp del]

definition visited :: "JacobiSVD \<Rightarrow> HierarchicalIterative \<Rightarrow> nat list" where
  "visited E s =
     (if stacks_m s = [] then []
      else if length (stacks_m s) = 1 then [0]
      else visited_levels E (length (stacks_m s)) 0 None (s\<lparr>sigma_m := value_type_max\<rparr>))"

section \<open>Example inputs\<close>

text \<open>
  The singular value decomposition of a matrix with one row and one column,
  \<open>[[a]] = [[sgn a]] * [[\<bar>a\<bar>]] * [[1]]\<close>, and the least-squares solution it gives.
  It instantiates the numerical routines in the examples below, which only
  decompose such matrices.
\<close>

definition jacobi_1x1 :: JacobiSVD where
  "jacobi_1x1 =
     \<lparr>compute = (\<lambda>sv m.
          (let a = (case m of [[x]] \<Rightarrow> x | _ \<Rightarrow> 0)
           in sv\<lparr>isInitialized := True,
                 rank := (if a = 0 then 0 else 1),
                 singularValues := [\<bar>a\<bar>],
                 matrixU := [[sgn a]],
                 matrixV := [[1]]\<rparr>)),
      solve = (\<lambda>sv b.
          (if rank sv = 0 then [0]
           else [hd (hd (matrixV sv)) * (hd (hd (matrixU sv)) * hd b)
                   / hd (singularValues sv)]))\<rparr>"

text \<open>The real line, functions from it to itself, and equality constraints on
  them, at a given address and with a given name.\<close>

definition R1 :: LiegroupSpace where
  "R1 = \<lparr>nq = 1, nv = 1, neutral = [0]\<rparr>"

definition function_R1 :: "string \<Rightarrow> DifferentiableFunction" where
  "function_R1 n =
     \<lparr>name = n, inputSize = 1, inputDerivativeSize = 1, outputSpace = R1,
      activeDerivativeParameters = [True]\<rparr>"

definition constraint_R1 :: "nat \<Rightarrow> string \<Rightarrow> Implicit" where
  "constraint_R1 a n =
     \<lparr>functionPtr = (a, function_R1 n), comparisonType = [Equality], activeRows = [(0, 1)]\<rparr>"

text \<open>A solver on the real line with one constraint at priority 0, one with a
  second constraint at priority 1, and one with a third constraint at priority 2.\<close>

definition solver_one_level :: HierarchicalIterative where
  "solver_one_level = snd (add (constraint_R1 100 ''f'') 0 (HierarchicalIterative_of R1))"



text \<open>The error and the reduced Jacobian of level \<open>i\<close>, as an evaluation of the
  constraints (\<^verbatim>\<open>computeValue\<close>) stores them.\<close>

definition with_value :: "nat \<Rightarrow> vector_t \<Rightarrow> matrix_t \<Rightarrow> HierarchicalIterative \<Rightarrow> HierarchicalIterative" where
  "with_value i e J s =
     s\<lparr>datas_m := (datas_m s)[i := (datas_m s ! i)\<lparr>error := e, reducedJ := J\<rparr>]\<rparr>"


text \<open>
  \<open>\<real>\<^sup>3\<close>, functions from it to the real line and equality constraints on them.
\<close>

definition R3 :: LiegroupSpace where
  "R3 = \<lparr>nq = 3, nv = 3, neutral = [0, 0, 0]\<rparr>"

definition function_R3 :: "string \<Rightarrow> DifferentiableFunction" where
  "function_R3 n =
     \<lparr>name = n, inputSize = 3, inputDerivativeSize = 3, outputSpace = R1,
      activeDerivativeParameters = [True, True, True]\<rparr>"

definition constraint_R3 :: "nat \<Rightarrow> string \<Rightarrow> Implicit" where
  "constraint_R3 a n =
     \<lparr>functionPtr = (a, function_R3 n), comparisonType = [Equality], activeRows = [(0, 1)]\<rparr>"

text \<open>
  A solver on \<open>\<real>\<^sup>3\<close> with one constraint at priority 0, whose free variables are
  then restricted to the coordinate 2. Modelled from the spec: the setter of the free
  variables is in hierarchical-iterative.hh, which is not among the sources; the level
  data are ``rebuilt by \<^verbatim>\<open>update()\<close> whenever the free-variable set or constraint
  stack changes''.
\<close>

definition solver_R3 :: HierarchicalIterative where
  "solver_R3 =
     projr (update ((snd (add (constraint_R3 100 ''f'') 0 (HierarchicalIterative_of R3)))
                      \<lparr>freeVariables_m := updateRows (addRow 2 1 MatrixBlocks_empty)\<rparr>))"

section \<open>Properties of the block-index algebra\<close>

lemma overlap_iff:
  "0 \<le> snd a \<Longrightarrow> 0 \<le> snd b \<Longrightarrow>
   overlap a b \<longleftrightarrow>
     (0 < snd a \<and> 0 < snd b
      \<and> {fst a ..< fst a + snd a} \<inter> {fst b ..< fst b + snd b} \<noteq> {}
      \<and> \<not> (fst b < fst a \<and> fst a + snd a < fst b + snd b))"
  by (cases a; cases b) (auto simp: overlap_def Let_def)

text \<open>
  C3 (claimed: \<open>overlap a b\<close> holds exactly when both segments have positive length
  and their half-open ranges intersect, also when one range strictly contains the
  other). The source misses the case where \<open>b\<close> strictly contains \<open>a\<close>: the segment
  \<open>(1, 1)\<close> is the range \<open>[1, 2)\<close>, inside \<open>[0, 3)\<close>, and \<open>overlap (1, 1) (0, 3)\<close> is
  false, while the same two segments in the other order overlap.
\<close>

theorem overlap_misses_containment:
  "overlap (1, 1) (0, 3) = False \<and> overlap (0, 3) (1, 1) = True
   \<and> 0 < snd (1::int, 1::int) \<and> 0 < snd (0::int, 3::int)
   \<and> {fst (1::int, 1::int) ..< fst (1::int, 1::int) + snd (1::int, 1::int)}
       \<inter> {fst (0::int, 3::int) ..< fst (0::int, 3::int) + snd (0::int, 3::int)} \<noteq> {}"
  by (simp add: overlap_def)

text \<open>
  C4 (claimed: a segment \<open>a\<close> of length 0 is absorbed by every operation: \<open>overlap a b\<close>
  is false, \<open>difference b a = [b]\<close>, \<open>difference a b = []\<close>, and \<open>sum a b\<close>, \<open>sum b a\<close>
  are \<open>b\<close> alone). The two-segment sum keeps a disjoint segment of length 0.
\<close>

theorem empty_segment_counterexample:
  "snd (5::int, 0::int) = 0 \<and> sum_seg (5, 0) (0, 2) = [(0, 2), (5, 0)]
   \<and> sum_seg (5, 0) (0, 2) \<noteq> [(0, 2)]"
  by simp

text \<open>
  C4 as amended: for a segment \<open>a\<close> of length 0 and a segment \<open>b\<close> of non-negative
  length, \<open>overlap\<close> is false in both orders, \<open>difference a b\<close> is empty,
  \<open>difference b a\<close> is \<open>[b]\<close> when \<open>b\<close> has positive length (and empty when \<open>b\<close> has
  length 0 too), and the sum in both orders is \<open>[b]\<close> whenever the start of \<open>a\<close> lies
  in \<open>[b.start, b.start + b.length]\<close>.
\<close>

theorem empty_segment_absorbed:
  assumes "snd a = 0" and "0 \<le> snd b"
  shows "overlap a b = False \<and> overlap b a = False
         \<and> difference a b = []
         \<and> difference b a = (if snd b = 0 then [] else [b])
         \<and> (fst b \<le> fst a \<and> fst a \<le> fst b + snd b
              \<longrightarrow> sum_seg a b = [b] \<and> sum_seg b a = [b])"
  using assms by (cases a; cases b) (auto simp: overlap_def difference_def)

theorem empty_segment_absorbed_witness:
  "snd (2::int, 0::int) = 0 \<and> (0::int) \<le> snd (0::int, 5::int)
   \<and> overlap (2, 0) (0, 5) = False \<and> overlap (0, 5) (2, 0) = False
   \<and> difference (2, 0) (0, 5) = []
   \<and> difference (0, 5) (2, 0) = [(0, 5)]
   \<and> sum_seg (2, 0) (0, 5) = [(0, 5)] \<and> sum_seg (0, 5) (2, 0) = [(0, 5)]"
  using empty_segment_absorbed [of "(2, 0)" "(0, 5)"] by simp

text \<open>
  C10: the union of two segments does not depend on the order of its arguments, for
  segments of non-negative length.
\<close>

theorem sum_seg_commute:
  assumes "0 \<le> snd a" and "0 \<le> snd b"
  shows "sum_seg a b = sum_seg b a"
proof (cases "fst a = fst b")
  case True
  with assms show ?thesis by (cases a; cases b) (simp add: max.commute)
next
  case False
  then consider "fst a > fst b" | "fst b > fst a" by linarith
  then show ?thesis
    by cases simp_all
qed

theorem sum_seg_commute_witness:
  "(0::int) \<le> snd (0::int, 5::int) \<and> 0 \<le> snd (3::int, 4::int)
   \<and> sum_seg (0, 5) (3, 4) = [(0, 7)] \<and> sum_seg (3, 4) (0, 5) = [(0, 7)]"
  using sum_seg_commute [of "(0, 5)" "(3, 4)"] by simp

section \<open>Properties of the comparison mapping\<close>

lemma applyComparison_frame:
  "applyComparison cj cmp idx val jac thr = Inr (val', jac')
   \<Longrightarrow> length val' = length val \<and> length jac' = length jac
       \<and> (\<forall>k. k \<notin> set idx \<longrightarrow> val' ! k = val ! k \<and> jac' ! k = jac ! k)"
proof (induction idx arbitrary: val jac)
  case Nil
  then show ?case by simp
next
  case (Cons j idx)
  show ?case
  proof (cases "cmp ! j = Superior \<or> cmp ! j = Inferior")
    case False
    with Cons.prems have "applyComparison cj cmp idx val jac thr = Inr (val', jac')"
      by (simp split: if_splits)
    from Cons.IH [OF this] show ?thesis by simp
  next
    case True
    define superior where "superior = (cmp ! j = Superior)"
    obtain v r where vr: "compare superior cj (val ! j) (jac ! j) thr = (v, r)"
      by (cases "compare superior cj (val ! j) (jac ! j) thr") 
    from True Cons.prems vr
    have "applyComparison cj cmp idx (val[j := v]) (jac[j := r]) thr = Inr (val', jac')"
      by (auto simp: superior_def split: if_splits)
    from Cons.IH [OF this] show ?thesis by auto
  qed
qed

lemma applyComparison_returns_aux:
  "\<forall>k \<in> set idx. k < length cmp \<and> k < n \<and> k < m
   \<Longrightarrow> length val = n \<Longrightarrow> length jac = m
   \<Longrightarrow> \<exists>v' J'. applyComparison cj cmp idx val jac thr = Inr (v', J')"
proof (induction idx arbitrary: val jac)
  case Nil
  then show ?case by simp
next
  case (Cons j idx)
  have *: "\<exists>v' J'. applyComparison cj cmp idx val1 jac1 thr = Inr (v', J')"
    if "length val1 = n" "length jac1 = m" for val1 jac1
    using Cons.IH [of val1 jac1] Cons.prems(1) that by simp
  from Cons.prems show ?case
    by (simp add: * split: prod.splits)
qed

lemma applyComparison_returns:
  "\<forall>k \<in> set idx. k < length cmp \<and> k < length val \<and> k < length jac
   \<Longrightarrow> \<exists>v' J'. applyComparison cj cmp idx val jac thr = Inr (v', J')"
  by (rule applyComparison_returns_aux [where n = "length val" and m = "length jac"]) simp_all

lemma applyComparison_at:
  "distinct idx \<Longrightarrow> j \<in> set idx
   \<Longrightarrow> applyComparison cj cmp idx val jac thr = Inr (val', jac')
   \<Longrightarrow> (val' ! j, jac' ! j) =
        (if cmp ! j = Superior then compare True cj (val ! j) (jac ! j) thr
         else if cmp ! j = Inferior then compare False cj (val ! j) (jac ! j) thr
         else (val ! j, jac ! j))"
proof (induction idx arbitrary: val jac)
  case Nil
  then show ?case by simp
next
  case (Cons i idx)
  show ?case
  proof (cases "cmp ! i = Superior \<or> cmp ! i = Inferior")
    case False
    with Cons.prems have run: "applyComparison cj cmp idx val jac thr = Inr (val', jac')"
      by (simp split: if_splits)
    show ?thesis
    proof (cases "j = i")
      case True
      with Cons.prems have "j \<notin> set idx" by simp
      with applyComparison_frame [OF run] False True show ?thesis by simp
    next
      case False
      with Cons.prems have "j \<in> set idx" "distinct idx" by simp_all
      from Cons.IH [OF this(2,1) run] show ?thesis .
    qed
  next
    case True
    define superior where "superior = (cmp ! i = Superior)"
    obtain v r where vr: "compare superior cj (val ! i) (jac ! i) thr = (v, r)"
      by (cases "compare superior cj (val ! i) (jac ! i) thr")
    from True Cons.prems vr
    have inb: "i < length val" "i < length jac"
      and run: "applyComparison cj cmp idx (val[i := v]) (jac[i := r]) thr = Inr (val', jac')"
      by (auto simp: superior_def split: if_splits)
    show ?thesis
    proof (cases "j = i")
      case jeq: True
      with Cons.prems have "j \<notin> set idx" by simp
      with applyComparison_frame [OF run] have "val' ! j = (val[i := v]) ! j" "jac' ! j = (jac[i := r]) ! j"
        by simp_all
      with jeq inb have "(val' ! j, jac' ! j) = (v, r)" by simp
      with vr True jeq show ?thesis by (auto simp: superior_def)
    next
      case False
      with Cons.prems have "j \<in> set idx" "distinct idx" by simp_all
      from Cons.IH [OF this(2,1) run] False show ?thesis by simp
    qed
  qed
qed

text \<open>
  C2 (claimed: for a row of type \<open>Inferior\<close>, if \<open>- thr < v\<close> the value becomes 0 and
  the Jacobian row is zeroed, otherwise the value becomes \<open>v + thr\<close>). The source does
  the opposite: with \<open>thr = 0\<close>, the value 1 (where \<open>- thr < v\<close>) stays \<open>1 = v + thr\<close>
  with its row kept, and the value \<open>- 1\<close> becomes 0 with its row zeroed.
\<close>

theorem applyComparison_Inferior_counterexample:
  "- (0::real) < [1::real] ! 0
   \<and> applyComparison True [Inferior] [0] [1] [[1]] 0 = Inr ([1], [[1]])
   \<and> \<not> (- (0::real) < [- 1::real] ! 0)
   \<and> applyComparison True [Inferior] [0] [- 1] [[1]] 0 = Inr ([0], [[0]])"
  by (simp add: compare_def)

text \<open>
  C2 as amended: in \<open>applyComparison\<close>, for every row \<open>j\<close> listed in the inequality
  indices whose comparison type is \<open>Inferior\<close>: if \<open>- thr < v\<close> the value becomes
  \<open>v + thr\<close> and the Jacobian row is kept; otherwise the value becomes 0 and the
  Jacobian row is zeroed (when the Jacobian is computed). The indices are distinct
  and within the comparison vector, the value vector and the Jacobian, as \<open>add\<close>
  builds them.
\<close>

theorem applyComparison_Inferior:
  assumes "distinct idx"
    and "\<forall>k \<in> set idx. k < length cmp \<and> k < length val \<and> k < length jac"
    and "j \<in> set idx" and "cmp ! j = Inferior"
  shows "\<exists>val' jac'.
           applyComparison ComputeJac cmp idx val jac thr = Inr (val', jac')
           \<and> (if - thr < val ! j
              then val' ! j = val ! j + thr \<and> jac' ! j = jac ! j
              else val' ! j = 0
                   \<and> jac' ! j = (if ComputeJac then replicate (length (jac ! j)) 0
                                      else jac ! j))"
proof -
  from applyComparison_returns [OF assms(2)]
  obtain val' jac' where
    run: "applyComparison ComputeJac cmp idx val jac thr = Inr (val', jac')"
    by blast
  from applyComparison_at [OF assms(1) assms(3) run] assms(4)
  have "(val' ! j, jac' ! j) = compare False ComputeJac (val ! j) (jac ! j) thr"
    by simp
  then have "(if - thr < val ! j
              then val' ! j = val ! j + thr \<and> jac' ! j = jac ! j
              else val' ! j = 0
                   \<and> jac' ! j = (if ComputeJac then replicate (length (jac ! j)) 0
                                      else jac ! j))"
    by (simp add: compare_def split: if_splits)
  with run show ?thesis by blast
qed

theorem applyComparison_Inferior_witness:
  "applyComparison True [Equality, Inferior, Inferior] [1, 2] [7, - 3, 1 / 2] [[1, 2], [3, 4], [5, 6]] 1
     = Inr ([7, 0, 3 / 2], [[1, 2], [0, 0], [5, 6]])"
  using applyComparison_Inferior [of "[1, 2]" "[Equality, Inferior, Inferior]" "[7, - 3, 1 / 2]"
      "[[1, 2], [3, 4], [5, 6]]" 1 True 1]
    applyComparison_Inferior [of "[1, 2]" "[Equality, Inferior, Inferior]" "[7, - 3, 1 / 2]"
      "[[1, 2], [3, 4], [5, 6]]" 2 True 1]
  by (simp add: compare_def)

section \<open>Properties of the saturation\<close>

lemma Bounds_saturate_from_spec:
  "length q \<le> length lb \<Longrightarrow> length q \<le> length ub \<Longrightarrow> length q \<le> length qSat
   \<Longrightarrow> length q \<le> length saturation
   \<Longrightarrow> \<exists>ret qSat' sign.
         Bounds_saturate_from lb ub q i qSat saturation sat = Inr (ret, qSat', sign)
         \<and> length qSat' = length qSat \<and> length sign = length saturation
         \<and> (\<forall>k. k < i \<or> length q \<le> k \<longrightarrow> qSat' ! k = qSat ! k \<and> sign ! k = saturation ! k)
         \<and> (\<forall>k. i \<le> k \<and> k < length q \<longrightarrow>
               qSat' ! k = fst (snd (clamp (lb ! k) (ub ! k) (q ! k)))
               \<and> sign ! k = snd (snd (clamp (lb ! k) (ub ! k) (q ! k))))
         \<and> (ret \<longleftrightarrow> sat \<or> (\<exists>k. i \<le> k \<and> k < length q \<and> fst (clamp (lb ! k) (ub ! k) (q ! k))))"
proof (induction lb ub q i qSat saturation sat rule: Bounds_saturate_from.induct)
  case (1 lb ub q i qSat saturation sat)
  show ?case
  proof (cases "i < length q")
    case False
    then show ?thesis by auto
  next
    case True
    obtain c vsat s where cl: "clamp (lb ! i) (ub ! i) (q ! i) = (c, vsat, s)"
      by (cases "clamp (lb ! i) (ub ! i) (q ! i)") 
    from True "1.prems" have inb: "i < length lb \<and> i < length ub \<and> i < length qSat \<and> i < length saturation"
      by simp
    from "1.IH" [OF True inb cl [symmetric] refl] "1.prems"
    obtain ret qSat' sign where
      run: "Bounds_saturate_from lb ub q (i + 1) (qSat[i := vsat]) (saturation[i := s])
              (if c then True else sat) = Inr (ret, qSat', sign)"
      and len: "length qSat' = length qSat" "length sign = length saturation"
      and frame: "\<forall>k. k < i + 1 \<or> length q \<le> k \<longrightarrow>
                    qSat' ! k = (qSat[i := vsat]) ! k \<and> sign ! k = (saturation[i := s]) ! k"
      and later: "\<forall>k. i + 1 \<le> k \<and> k < length q \<longrightarrow>
               qSat' ! k = fst (snd (clamp (lb ! k) (ub ! k) (q ! k)))
               \<and> sign ! k = snd (snd (clamp (lb ! k) (ub ! k) (q ! k)))"
      and ret: "ret \<longleftrightarrow> (if c then True else sat)
                  \<or> (\<exists>k. i + 1 \<le> k \<and> k < length q \<and> fst (clamp (lb ! k) (ub ! k) (q ! k)))"
      by auto
    have eq: "Bounds_saturate_from lb ub q i qSat saturation sat = Inr (ret, qSat', sign)"
      using True inb cl run by simp
    have f1: "\<forall>k. k < i \<or> length q \<le> k \<longrightarrow> qSat' ! k = qSat ! k \<and> sign ! k = saturation ! k"
      using frame True by auto
    have ati: "qSat' ! i = vsat \<and> sign ! i = s"
      using frame inb by simp
    have f2: "\<forall>k. i \<le> k \<and> k < length q \<longrightarrow>
               qSat' ! k = fst (snd (clamp (lb ! k) (ub ! k) (q ! k)))
               \<and> sign ! k = snd (snd (clamp (lb ! k) (ub ! k) (q ! k)))"
    proof (intro allI impI)
      fix k assume k: "i \<le> k \<and> k < length q"
      show "qSat' ! k = fst (snd (clamp (lb ! k) (ub ! k) (q ! k)))
               \<and> sign ! k = snd (snd (clamp (lb ! k) (ub ! k) (q ! k)))"
      proof (cases "k = i")
        case True
        with ati cl show ?thesis by simp
      next
        case False
        with k later show ?thesis by simp
      qed
    qed
    have f3: "ret \<longleftrightarrow> sat \<or> (\<exists>k. i \<le> k \<and> k < length q \<and> fst (clamp (lb ! k) (ub ! k) (q ! k)))"
    proof -
      have "(\<exists>k. i \<le> k \<and> k < length q \<and> fst (clamp (lb ! k) (ub ! k) (q ! k)))
            \<longleftrightarrow> c \<or> (\<exists>k. i + 1 \<le> k \<and> k < length q \<and> fst (clamp (lb ! k) (ub ! k) (q ! k)))"
        (is "?L \<longleftrightarrow> ?R")
      proof
        assume ?L
        then obtain k where k: "i \<le> k" "k < length q" "fst (clamp (lb ! k) (ub ! k) (q ! k))" by blast
        show ?R
        proof (cases "k = i")
          case True with k cl show ?thesis by simp
        next
          case False with k have "i + 1 \<le> k" by simp
          with k show ?thesis by blast
        qed
      next
        assume ?R
        then show ?L
        proof
          assume c
          with cl True show ?L by (intro exI [of _ i]) simp
        next
          assume "\<exists>k. i + 1 \<le> k \<and> k < length q \<and> fst (clamp (lb ! k) (ub ! k) (q ! k))"
          then obtain k where "i + 1 \<le> k" "k < length q" "fst (clamp (lb ! k) (ub ! k) (q ! k))" by blast
          then show ?L by (intro exI [of _ k]) simp
        qed
      qed
      with ret show ?thesis by auto
    qed
    from eq len f1 f2 f3 show ?thesis by blast
  qed
qed

lemma clamp_cases:
  "le_double lb ub \<Longrightarrow> v \<noteq> NaN \<Longrightarrow> clamp lb ub v = (c, vsat, s) \<Longrightarrow>
     le_double lb vsat \<and> le_double vsat ub
     \<and> (s = 0 \<longleftrightarrow> lt_double lb v \<and> lt_double v ub)
     \<and> (le_double v lb \<longrightarrow> s = - 1 \<and> vsat = lb)
     \<and> (lt_double lb v \<and> le_double ub v \<longrightarrow> s = 1 \<and> vsat = ub)
     \<and> (lt_double lb v \<and> lt_double v ub \<longrightarrow> vsat = v)"
  by (cases lb; cases ub; cases v) (auto simp: clamp_def ge_double_def split: if_splits)

lemma clamp_flag: "clamp lb ub v = (c, vsat, s) \<Longrightarrow> c \<longleftrightarrow> s \<noteq> 0"
  by (auto simp: clamp_def split: if_splits)

lemma clamp_NaN: "clamp lb ub NaN = (False, NaN, 0)"
  by (cases lb; cases ub) (simp_all add: clamp_def ge_double_def)

text \<open>
  C6, as claimed, fails on a configuration with a NaN coordinate: with the bounds
  \<open>[0, 1]\<close>, \<open>Bounds::saturate\<close> copies NaN to \<open>qSat\<close>, which is then not within the
  bounds, and sets the sign to 0 although \<open>lb < q < ub\<close> does not hold.
\<close>

theorem Bounds_saturate_NaN_counterexample:
  "Bounds_saturate [Num 0] [Num 1] [NaN] [Num 9] [5] = Inr (False, [NaN], [0])
   \<and> le_double (Num 0) (Num 1)
   \<and> \<not> le_double (Num 0) NaN \<and> \<not> le_double NaN (Num 1)
   \<and> \<not> lt_double (Num 0) NaN \<and> \<not> lt_double NaN (Num 1)"
  by (simp add: Bounds_saturate_def clamp_def ge_double_def)

text \<open>
  C6, amended: for bounds with \<open>lb \<le> ub\<close> coordinatewise, \<open>Bounds::saturate\<close>
  returns and, at every coordinate where \<open>q\<close> is not NaN, writes \<open>qSat\<close> within the
  bounds and sets the sign to 0 exactly when \<open>lb < q < ub\<close> (to \<open>- 1\<close> at or below the
  lower bound, to 1 at or above the upper bound); a coordinate where \<open>q\<close> is NaN is
  copied to \<open>qSat\<close> with the sign 0. It returns true exactly when some sign is not 0.
  The vectors hold at least as many coordinates as \<open>q\<close>.
\<close>

theorem Bounds_saturate_correct:
  assumes "length q \<le> length lb" and "length q \<le> length ub"
    and "length q \<le> length qSat" and "length q \<le> length saturation"
    and "\<forall>i < length q. le_double (lb ! i) (ub ! i)"
  shows "\<exists>ret qSat' sign.
           Bounds_saturate lb ub q qSat saturation = Inr (ret, qSat', sign)
           \<and> (\<forall>i < length q. q ! i \<noteq> NaN \<longrightarrow>
                 le_double (lb ! i) (qSat' ! i) \<and> le_double (qSat' ! i) (ub ! i)
                 \<and> (sign ! i = 0 \<longleftrightarrow> lt_double (lb ! i) (q ! i) \<and> lt_double (q ! i) (ub ! i))
                 \<and> (le_double (q ! i) (lb ! i) \<longrightarrow> sign ! i = - 1 \<and> qSat' ! i = lb ! i)
                 \<and> (lt_double (lb ! i) (q ! i) \<and> le_double (ub ! i) (q ! i)
                      \<longrightarrow> sign ! i = 1 \<and> qSat' ! i = ub ! i)
                 \<and> (lt_double (lb ! i) (q ! i) \<and> lt_double (q ! i) (ub ! i)
                      \<longrightarrow> qSat' ! i = q ! i))
           \<and> (\<forall>i < length q. q ! i = NaN \<longrightarrow> qSat' ! i = NaN \<and> sign ! i = 0)
           \<and> (ret \<longleftrightarrow> (\<exists>i < length q. sign ! i \<noteq> 0))"
proof -
  from Bounds_saturate_from_spec [OF assms(1-4), of 0 False]
  obtain ret qSat' sign where
    run: "Bounds_saturate lb ub q qSat saturation = Inr (ret, qSat', sign)"
    and at: "\<forall>k. k < length q \<longrightarrow>
               qSat' ! k = fst (snd (clamp (lb ! k) (ub ! k) (q ! k)))
               \<and> sign ! k = snd (snd (clamp (lb ! k) (ub ! k) (q ! k)))"
    and ret: "ret \<longleftrightarrow> (\<exists>k. k < length q \<and> fst (clamp (lb ! k) (ub ! k) (q ! k)))"
    unfolding Bounds_saturate_def by auto
  have flag: "fst (clamp (lb ! i) (ub ! i) (q ! i)) \<longleftrightarrow> sign ! i \<noteq> 0"
    if "i < length q" for i
  proof -
    obtain c vsat s where cl: "clamp (lb ! i) (ub ! i) (q ! i) = (c, vsat, s)"
      by (cases "clamp (lb ! i) (ub ! i) (q ! i)")
    from clamp_flag [OF cl] at that cl show ?thesis by simp
  qed
  have each: "le_double (lb ! i) (qSat' ! i) \<and> le_double (qSat' ! i) (ub ! i)
                 \<and> (sign ! i = 0 \<longleftrightarrow> lt_double (lb ! i) (q ! i) \<and> lt_double (q ! i) (ub ! i))
                 \<and> (le_double (q ! i) (lb ! i) \<longrightarrow> sign ! i = - 1 \<and> qSat' ! i = lb ! i)
                 \<and> (lt_double (lb ! i) (q ! i) \<and> le_double (ub ! i) (q ! i)
                      \<longrightarrow> sign ! i = 1 \<and> qSat' ! i = ub ! i)
                 \<and> (lt_double (lb ! i) (q ! i) \<and> lt_double (q ! i) (ub ! i)
                      \<longrightarrow> qSat' ! i = q ! i)"
    if "i < length q" and "q ! i \<noteq> NaN" for i
  proof -
    obtain c vsat s where cl: "clamp (lb ! i) (ub ! i) (q ! i) = (c, vsat, s)"
      by (cases "clamp (lb ! i) (ub ! i) (q ! i)")
    from assms(5) that have "le_double (lb ! i) (ub ! i)" by simp
    from clamp_cases [OF this that(2) cl] at that cl show ?thesis by simp
  qed
  have nan: "qSat' ! i = NaN \<and> sign ! i = 0" if "i < length q" and "q ! i = NaN" for i
    using at that by (simp add: clamp_NaN)
  have "ret \<longleftrightarrow> (\<exists>i < length q. sign ! i \<noteq> 0)"
    using ret flag by blast
  with run each nan show ?thesis by blast
qed

theorem Bounds_saturate_correct_witness:
  "Bounds_saturate [Num 0, Num 0, Num 0, MInf] [Num 1, Num 1, PInf, Num 1]
       [Num (- 2), Num (1 / 2), PInf, NaN] [Num 9, Num 9, Num 9, Num 9] [5, 5, 5, 5]
     = Inr (True, [Num 0, Num (1 / 2), PInf, NaN], [- 1, 0, 1, 0])
   \<and> list_all2 le_double [Num 0, Num 0, Num 0, MInf] [Num 1, Num 1, PInf, Num 1]"
  using Bounds_saturate_correct [of "[Num (- 2), Num (1 / 2), PInf, NaN]"
      "[Num 0, Num 0, Num 0, MInf]" "[Num 1, Num 1, PInf, Num 1]"
      "[Num 9, Num 9, Num 9, Num 9]" "[5, 5, 5, 5]"]
  by (simp add: Bounds_saturate_def clamp_def ge_double_def)

section \<open>Properties of the constants\<close>

lemma value_type_max_eq: "value_type_max = (2 - 1 / 2 ^ 52) * 2 ^ 1023"
  by (simp add: value_type_max_def)

section \<open>Properties of \<open>add\<close>\<close>

text \<open>
  C5: when the function of the new constraint is equal, by value, to a function
  already in the priority map (at any priority and at any address), \<open>add\<close> throws
  the logic error and leaves the solver as it was: the state after the call is the
  state before it, in every field.
\<close>

theorem add_duplicate_rejected:
  assumes "\<exists>arg \<in> set (priority_m s). deref (fst arg) = deref (functionPtr constraint)"
  shows "add constraint priority s =
           (Inl (logic_error (''Contraint '' @ [CHR 0x22] @ name (deref (functionPtr constraint))
                                @ [CHR 0x22] @ '' already in solver'')), s)"
proof -
  from assms obtain arg where "arg \<in> set (priority_m s)"
    and "deref (fst arg) = deref (functionPtr constraint)"
    by blast
  then have "find (\<lambda>arg. deref (fst arg) = deref (functionPtr constraint)) (priority_m s) \<noteq> None"
    unfolding find_None_iff by blast
  then show ?thesis
    by (simp add: add_def Let_def)
qed

theorem add_duplicate_rejected_witness:
  "(\<exists>arg \<in> set (priority_m solver_one_level).
       deref (fst arg) = deref (functionPtr (constraint_R1 200 ''f'')))
   \<and> add (constraint_R1 200 ''f'') 1 solver_one_level
       = (Inl (logic_error (''Contraint '' @ [CHR 0x22] @ ''f'' @ [CHR 0x22]
                              @ '' already in solver'')),
          solver_one_level)"
proof -
  have pr: "priority_m solver_one_level = [((100, function_R1 ''f''), 0)]"
    by code_simp
  have hyp: "\<exists>arg \<in> set (priority_m solver_one_level).
         deref (fst arg) = deref (functionPtr (constraint_R1 200 ''f''))"
    unfolding pr by (simp add: deref_def constraint_R1_def)
  from add_duplicate_rejected [OF hyp, of 1] hyp show ?thesis
    by (simp add: constraint_R1_def function_R1_def deref_def)
qed

section \<open>Properties of \<open>computeError\<close>\<close>

text \<open>
  C9 (claimed: \<open>computeError\<close> never reads a level out of range, also when
  \<open>lastIsOptional\<close> is set and no constraint has been added). On a solver without
  levels and with \<open>lastIsOptional\<close> set, the bound \<^verbatim>\<open>stacks_.size() - 1\<close> wraps around
  to \<open>2\<^sup>6\<^sup>4 - 1\<close>, the loop is entered with \<open>i = 0\<close> and reads \<^verbatim>\<open>stacks_[0]\<close> of an
  empty vector.
\<close>

theorem computeError_wraps_on_empty:
  "computeError ((HierarchicalIterative_of configSpace)\<lparr>lastIsOptional_m := True\<rparr>) = Inl OutOfBounds"
  by (simp add: computeError_def HierarchicalIterative_of_def Let_def word_gt_0 computeError_levels.simps)

section \<open>Properties of \<open>update\<close>\<close>

text \<open>
  What \<open>update\<close> leaves behind: \<open>dq\<close> is the zero vector of the tangent space, and
  every level has \<open>maxRank\<close> 0 and an SVD that has not been computed (rank 0 in the
  model).
\<close>

lemma update_zero_dq:
  assumes "update s = Inr s'"
  shows "dq_m s' = replicate (nv (configSpace_m s')) 0"
  using assms unfolding update_def Let_def
  by (auto split: sum.splits)

lemma computeActiveRowsOfJ_frame:
  assumes "computeActiveRowsOfJ i s = Inr s'"
  shows "stacks_m s' = stacks_m s \<and> length (datas_m s') = length (datas_m s)
         \<and> i < length (datas_m s)
         \<and> (\<forall>j. j \<noteq> i \<longrightarrow> datas_m s' ! j = datas_m s ! j)"
  using assms unfolding computeActiveRowsOfJ_def Let_def
  by (auto split: if_splits sum.splits)

lemma update_level_frame:
  assumes "update_level r i s = Inr s'"
  shows "stacks_m s' = stacks_m s \<and> length (datas_m s') = length (datas_m s)
         \<and> i < length (datas_m s)
         \<and> (\<forall>j. j \<noteq> i \<longrightarrow> datas_m s' ! j = datas_m s ! j)
         \<and> maxRank (datas_m s' ! i) = 0 \<and> rank (svd (datas_m s' ! i)) = 0"
proof -
  from assms obtain s1 where ca: "computeActiveRowsOfJ i s = Inr s1"
    unfolding update_level_def by (auto split: sum.splits)
  note f = computeActiveRowsOfJ_frame [OF ca]
  from assms ca obtain d' where
    s': "s' = s1\<lparr>dimension_m := dimension_m s1 + int (ics_outputDerivativeSize (stacks_m s1 ! i)),
                 reducedDimension_m := reducedDimension_m s1 + nbRows (activeRowsOfJ (datas_m s1 ! i)),
                 datas_m := (datas_m s1)[i := d']\<rparr>"
    and d': "maxRank d' = 0 \<and> rank (svd d') = 0"
    unfolding update_level_def Let_def
    by (auto simp: setThreshold_def SVD_of_def)
  from f s' d' show ?thesis by simp
qed

lemma update_from_resets:
  assumes "update_from r n i s = Inr s'"
  shows "stacks_m s' = stacks_m s \<and> length (datas_m s') = length (datas_m s)
         \<and> (\<forall>j < i. datas_m s' ! j = datas_m s ! j)
         \<and> (\<forall>j. i \<le> j \<and> j < n \<longrightarrow>
               j < length (datas_m s')
               \<and> maxRank (datas_m s' ! j) = 0 \<and> rank (svd (datas_m s' ! j)) = 0)"
  using assms
proof (induction r n i s rule: update_from.induct)
  case (1 r n i s)
  note unfold = update_from.simps [of r n i s]
  show ?case
  proof (cases "i < n")
    case False
    with "1.prems" show ?thesis by (simp add: unfold)
  next
    case True
    with "1.prems" obtain s1 where ul: "update_level r i s = Inr s1"
      and rest: "update_from r n (i + 1) s1 = Inr s'"
      by (auto simp: unfold split: sum.splits)
    note f = update_level_frame [OF ul]
    note IH = "1.IH" [OF True ul rest]
    have "j < length (datas_m s')
          \<and> maxRank (datas_m s' ! j) = 0 \<and> rank (svd (datas_m s' ! j)) = 0"
      if "i \<le> j \<and> j < n" for j
    proof (cases "j = i")
      case True
      with IH have "datas_m s' ! j = datas_m s1 ! j" by simp
      with f IH True show ?thesis by simp
    next
      case False
      with that have "i + 1 \<le> j \<and> j < n" by simp
      with IH show ?thesis by blast
    qed
    moreover have "\<forall>j < i. datas_m s' ! j = datas_m s ! j"
      using f IH by simp
    ultimately show ?thesis using f IH by simp
  qed
qed

lemma update_resets_maxRank:
  assumes "update s = Inr s'" and "length (datas_m s) \<le> length (stacks_m s)"
  shows "\<forall>d \<in> set (datas_m s'). maxRank d = 0 \<and> rank (svd d) = 0"
proof -
  define s0 where "s0 = s\<lparr>dimension_m := 0, reducedDimension_m := 0\<rparr>"
  from assms(1) obtain s1 where
    uf: "update_from (nat (nbIndices (freeVariables_m s))) (length (stacks_m s)) 0 s0 = Inr s1"
    and d: "datas_m s' = datas_m s1"
    unfolding update_def Let_def s0_def by (auto split: sum.splits)
  note f = update_from_resets [OF uf]
  have len: "length (datas_m s1) = length (datas_m s)" using f by (simp add: s0_def)
  show ?thesis
  proof
    fix x assume "x \<in> set (datas_m s')"
    then obtain j where j: "j < length (datas_m s1)" "x = datas_m s1 ! j"
      unfolding d by (metis in_set_conv_nth)
    with len assms(2) have "0 \<le> j \<and> j < length (stacks_m s)" by simp
    with f j show "maxRank x = 0 \<and> rank (svd x) = 0" by simp
  qed
qed

section \<open>Properties of \<open>computeDescentDirection\<close>\<close>

text \<open>What the parts of the loop change in the solver.\<close>

lemma update_sigma_frame:
  assumes "update_sigma i s = Inr s'" and "i < length (datas_m s)"
  shows "stacks_m s' = stacks_m s \<and> freeVariables_m s' = freeVariables_m s
         \<and> dq_m s' = dq_m s \<and> dqSmall_m s' = dqSmall_m s
         \<and> length (datas_m s') = length (datas_m s)
         \<and> (\<forall>j. j \<noteq> i \<longrightarrow> datas_m s' ! j = datas_m s ! j)
         \<and> svd (datas_m s' ! i) = svd (datas_m s ! i)
         \<and> maxRank (datas_m s' ! i) = max (maxRank (datas_m s ! i)) (rank (svd (datas_m s ! i)))
         \<and> sigma_m s' =
             (if 0 < maxRank (datas_m s' ! i)
              then min (sigma_m s)
                     (singularValues (svd (datas_m s' ! i)) ! (maxRank (datas_m s' ! i) - 1))
              else sigma_m s)"
  using assms
  by (auto simp: update_sigma_def Let_def split: if_splits)

lemma level_solve_frame:
  assumes "level_solve E i p s = (err, s')" and "i < length (datas_m s)"
  shows "stacks_m s' = stacks_m s \<and> freeVariables_m s' = freeVariables_m s
         \<and> dq_m s' = dq_m s \<and> sigma_m s' = sigma_m s
         \<and> length (datas_m s') = length (datas_m s)
         \<and> (\<forall>j. j \<noteq> i \<longrightarrow> datas_m s' ! j = datas_m s ! j)
         \<and> maxRank (datas_m s' ! i) = maxRank (datas_m s ! i)"
proof -
  from assms(1) obtain sv dqs where
    "s' = s\<lparr>datas_m := (datas_m s)[i := (datas_m s ! i)\<lparr>svd := sv\<rparr>], dqSmall_m := dqs\<rparr>"
    unfolding level_solve_def Let_def by auto
  with assms(2) show ?thesis by simp
qed

lemma level_projector_frame:
  assumes "level_projector i p err s = (s', p', b)" and "i < length (datas_m s)"
  shows "stacks_m s' = stacks_m s \<and> freeVariables_m s' = freeVariables_m s
         \<and> dq_m s' = dq_m s \<and> sigma_m s' = sigma_m s \<and> dqSmall_m s' = dqSmall_m s
         \<and> length (datas_m s') = length (datas_m s)
         \<and> (\<forall>j. j \<noteq> i \<longrightarrow> datas_m s' ! j = datas_m s ! j)
         \<and> maxRank (datas_m s' ! i) = maxRank (datas_m s ! i)
         \<and> svd (datas_m s' ! i) = svd (datas_m s ! i)"
proof -
  from assms(1) have "s' = s \<or> (\<exists>pk. s' = s\<lparr>datas_m := (datas_m s)[i := (datas_m s ! i)\<lparr>PK := pk\<rparr>]\<rparr>)"
    unfolding level_projector_def Let_def by (auto split: if_splits)
  with assms(2) show ?thesis by auto
qed

lemma descent_level_frame:
  assumes "descent_level E i p s = Inr (s', p', b)" and "i < length (datas_m s)"
  shows "stacks_m s' = stacks_m s \<and> freeVariables_m s' = freeVariables_m s
         \<and> dq_m s' = dq_m s
         \<and> length (datas_m s') = length (datas_m s)
         \<and> (\<forall>j. j \<noteq> i \<longrightarrow> datas_m s' ! j = datas_m s ! j)
         \<and> maxRank (datas_m s' ! i) = max (maxRank (datas_m s ! i)) (rank (svd (datas_m s' ! i)))
         \<and> sigma_m s' =
             (if 0 < maxRank (datas_m s' ! i)
              then min (sigma_m s)
                     (singularValues (svd (datas_m s' ! i)) ! (maxRank (datas_m s' ! i) - 1))
              else sigma_m s)"
proof -
  obtain err s1 where ls: "level_solve E i p s = (err, s1)"
    by (cases "level_solve E i p s")
  from assms(1) ls obtain s2 where us: "update_sigma i s1 = Inr s2"
    and lp: "level_projector i p err s2 = (s', p', b)"
    unfolding descent_level_def by (auto split: if_splits sum.splits)
  note f1 = level_solve_frame [OF ls assms(2)]
  from f1 assms(2) have i1: "i < length (datas_m s1)" by simp
  note f2 = update_sigma_frame [OF us i1]
  from f2 i1 have i2: "i < length (datas_m s2)" by simp
  note f3 = level_projector_frame [OF lp i2]
  from f1 f2 f3 show ?thesis by simp
qed

lemma descent_levels_frame:
  assumes "descent_levels E n i p s = Inr s'"
  shows "stacks_m s' = stacks_m s \<and> freeVariables_m s' = freeVariables_m s
         \<and> dq_m s' = dq_m s
         \<and> length (datas_m s') = length (datas_m s)
         \<and> (\<forall>j < i. datas_m s' ! j = datas_m s ! j)
         \<and> (\<forall>j. datas_m s' ! j = datas_m s ! j
                 \<or> maxRank (datas_m s' ! j)
                     = max (maxRank (datas_m s ! j)) (rank (svd (datas_m s' ! j))))"
  using assms
proof (induction E n i p s rule: descent_levels.induct)
  case (1 E n i p s)
  show ?case
  proof (cases "i < n")
    case False
    with "1.prems" show ?thesis by (simp add: descent_levels.simps [of E n i p s])
  next
    case True
    note unfold = descent_levels.simps [of E n i p s]
    from True "1.prems" have inb: "i < length (datas_m s)"
      by (simp add: unfold split: if_splits)
    show ?thesis
    proof (cases "rows (reducedJ (datas_m s ! i)) = 0")
      case skip: True
      with True inb "1.prems" have "descent_levels E n (i + 1) p s = Inr s'"
        by (simp add: unfold)
      from "1.IH"(1) [OF True _ skip this] inb show ?thesis by simp
    next
      case work: False
      from True inb work "1.prems" obtain s1 p1 b where
        dl: "descent_level E i p s = Inr (s1, p1, b)"
        by (auto simp: unfold split: sum.splits)
      note f = descent_level_frame [OF dl inb]
      show ?thesis
      proof (cases b)
        case True
        with \<open>i < n\<close> inb work dl "1.prems" have "s' = s1" by (simp add: unfold)
        with f show ?thesis by (metis nat_neq_iff)
      next
        case False
        with \<open>i < n\<close> inb work dl "1.prems"
        have rest: "descent_levels E n (i + 1) p1 s1 = Inr s'" by (simp add: unfold)
        have "\<not> \<not> i < length (datas_m s)" using inb by simp
        from "1.IH"(2) [OF \<open>i < n\<close> this work dl refl refl False rest]
        have g: "stacks_m s' = stacks_m s1 \<and> freeVariables_m s' = freeVariables_m s1
           \<and> dq_m s' = dq_m s1 \<and> length (datas_m s') = length (datas_m s1)
           \<and> (\<forall>j < i + 1. datas_m s' ! j = datas_m s1 ! j)
           \<and> (\<forall>j. datas_m s' ! j = datas_m s1 ! j
                 \<or> maxRank (datas_m s' ! j)
                     = max (maxRank (datas_m s1 ! j)) (rank (svd (datas_m s' ! j))))" .
        have "datas_m s' ! j = datas_m s ! j
                 \<or> maxRank (datas_m s' ! j)
                     = max (maxRank (datas_m s ! j)) (rank (svd (datas_m s' ! j)))" for j
        proof (cases "j = i")
          case True
          with g have "datas_m s' ! j = datas_m s1 ! j" by simp
          with f True show ?thesis by simp
        next
          case False
          with f have "datas_m s1 ! j = datas_m s ! j" by simp
          with g show ?thesis by metis
        qed
        moreover have "\<forall>j < i. datas_m s' ! j = datas_m s ! j"
          using f g by simp
        ultimately show ?thesis using f g by simp
      qed
    qed
  qed
qed

lemma descent_single_frame:
  assumes "descent_single E s = Inr s'"
  shows "stacks_m s' = stacks_m s \<and> freeVariables_m s' = freeVariables_m s
         \<and> dq_m s' = dq_m s
         \<and> length (datas_m s') = length (datas_m s)
         \<and> (\<forall>j. j \<noteq> 0 \<longrightarrow> datas_m s' ! j = datas_m s ! j)
         \<and> maxRank (datas_m s' ! 0) = max (maxRank (datas_m s ! 0)) (rank (svd (datas_m s' ! 0)))
         \<and> sigma_m s' =
             (if 0 < maxRank (datas_m s' ! 0)
              then min (sigma_m s)
                     (singularValues (svd (datas_m s' ! 0)) ! (maxRank (datas_m s' ! 0) - 1))
              else sigma_m s)"
proof -
  from assms have inb: "0 < length (datas_m s)"
    unfolding descent_single_def by (simp split: if_splits)
  define s1 where "s1 = s\<lparr>datas_m := (datas_m s)[0 := (datas_m s ! 0)\<lparr>svd := compute E (svd (datas_m s ! 0)) (reducedJ (datas_m s ! 0))\<rparr>],
     dqSmall_m := solve E (compute E (svd (datas_m s ! 0)) (reducedJ (datas_m s ! 0)))
        (rview (m_rows (activeRowsOfJ (datas_m s ! 0))) (map uminus (error (datas_m s ! 0))))\<rparr>"
  from assms inb have us: "update_sigma 0 s1 = Inr s'"
    unfolding descent_single_def s1_def Let_def by (simp split: if_splits)
  have i1: "0 < length (datas_m s1)" using inb by (simp add: s1_def)
  note f = update_sigma_frame [OF us i1]
  from f inb show ?thesis by (simp add: s1_def)
qed

lemma expandDqSmall_frame:
  assumes "expandDqSmall s = Inr s'"
  shows "datas_m s' = datas_m s \<and> sigma_m s' = sigma_m s \<and> dqSmall_m s' = dqSmall_m s
         \<and> freeVariables_m s' = freeVariables_m s \<and> stacks_m s' = stacks_m s
         \<and> dq_m s' = assign_rows (indices (freeVariables_m s)) (dq_m s) (dqSmall_m s)
         \<and> int (length (dqSmall_m s)) = cardinal (indices (freeVariables_m s))
         \<and> segments_within (indices (freeVariables_m s)) (length (dq_m s))"
  using assms unfolding expandDqSmall_def Let_def
  by (auto split: if_splits)






lemma list_of_length_3: "length xs = 3 \<Longrightarrow> xs = [xs ! 0, xs ! 1, xs ! 2]"
  by (cases xs; cases "tl xs"; cases "tl (tl xs)") auto




lemma Min_insert_min:
  "finite A \<Longrightarrow> Min (insert a (insert b A)) = Min (insert (min a b) (A :: real set))"
  by (cases "A = {}") (simp_all add: min.assoc)

lemma descent_levels_sigma:
  assumes "descent_levels E n i p s = Inr s'"
  shows "sigma_m s' =
           Min (set (sigma_m s #
                  map (\<lambda>j. singularValues (svd (datas_m s' ! j)) ! (maxRank (datas_m s' ! j) - 1))
                    (filter (\<lambda>j. 0 < maxRank (datas_m s' ! j)) (visited_levels E n i p s))))"
  using assms
proof (induction E n i p s rule: descent_levels.induct)
  case (1 E n i p s)
  note unfold = descent_levels.simps [of E n i p s]
  note vunfold = visited_levels.simps [of E n i p s]
  show ?case
  proof (cases "i < n")
    case False
    then have "visited_levels E n i p s = []" by (simp add: vunfold)
    moreover from False "1.prems" have "s' = s" by (simp add: unfold)
    ultimately show ?thesis by simp
  next
    case True
    from True "1.prems" have inb: "i < length (datas_m s)"
      by (simp add: unfold split: if_splits)
    show ?thesis
    proof (cases "rows (reducedJ (datas_m s ! i)) = 0")
      case skip: True
      with True inb "1.prems" have "descent_levels E n (i + 1) p s = Inr s'"
        by (simp add: unfold)
      from "1.IH"(1) [OF True _ skip this] inb True skip show ?thesis
        by (simp add: vunfold)
    next
      case work: False
      from True inb work "1.prems" obtain s1 p1 b where
        dl: "descent_level E i p s = Inr (s1, p1, b)"
        by (auto simp: unfold split: sum.splits)
      note f = descent_level_frame [OF dl inb]
      let ?val = "\<lambda>t j. singularValues (svd (datas_m t ! j)) ! (maxRank (datas_m t ! j) - 1)"
      from f have sg: "sigma_m s1 = (if 0 < maxRank (datas_m s1 ! i)
                                    then min (sigma_m s) (?val s1 i) else sigma_m s)"
        by simp
      show ?thesis
      proof (cases b)
        case True
        with \<open>i < n\<close> inb work dl "1.prems" have "s' = s1" by (simp add: unfold)
        moreover from \<open>i < n\<close> inb work dl True
        have "visited_levels E n i p s = [i]" by (simp add: vunfold)
        ultimately show ?thesis using sg by simp
      next
        case False
        with \<open>i < n\<close> inb work dl "1.prems"
        have rest: "descent_levels E n (i + 1) p1 s1 = Inr s'" by (simp add: unfold)
        have "\<not> \<not> i < length (datas_m s)" using inb by simp
        note IH = "1.IH"(2) [OF \<open>i < n\<close> this work dl refl refl False rest]
        from descent_levels_frame [OF rest] have same: "datas_m s' ! i = datas_m s1 ! i"
          by simp
        from \<open>i < n\<close> inb work dl False
        have vis: "visited_levels E n i p s = i # visited_levels E n (i + 1) p1 s1"
          by (simp add: vunfold)
        let ?R = "set (map (?val s')
                    (filter (\<lambda>j. 0 < maxRank (datas_m s' ! j)) (visited_levels E n (i + 1) p1 s1)))"
        have fin: "finite ?R" by simp
        from IH have a: "sigma_m s' = Min (insert (sigma_m s1) ?R)" by simp
        show ?thesis
        proof (cases "0 < maxRank (datas_m s1 ! i)")
          case True
          with sg a have "sigma_m s' = Min (insert (min (sigma_m s) (?val s1 i)) ?R)" by simp
          also have "\<dots> = Min (insert (sigma_m s) (insert (?val s1 i) ?R))"
            using Min_insert_min [OF fin] by simp
          finally show ?thesis using True same by (simp add: vis)
        next
          case False
          with sg a same show ?thesis by (simp add: vis)
        qed
      qed
    qed
  qed
qed

text \<open>
  C1 (claimed: over one \<open>solve\<close>, \<open>sigma\<close> is the smallest singular value seen at any
  level since the \<open>solve\<close> began, non-increasing from one iteration to the next).
  Two calls in a row on a solver with one level, the reduced Jacobian being \<open>[[1]]\<close>
  in the first and \<open>[[2]]\<close> in the second: \<open>sigma\<close> is 1 after the first call and 2
  after the second.
\<close>

theorem sigma_not_monotone_counterexample:
  "\<not> isl (computeDescentDirection jacobi_1x1 (with_value 0 [- 4] [[1]] solver_one_level))
   \<and> sigma_m (projr (computeDescentDirection jacobi_1x1
                       (with_value 0 [- 4] [[1]] solver_one_level))) = 1
   \<and> \<not> isl (computeDescentDirection jacobi_1x1
               (with_value 0 [- 3] [[2]]
                  (projr (computeDescentDirection jacobi_1x1
                            (with_value 0 [- 4] [[1]] solver_one_level)))))
   \<and> sigma_m (projr (computeDescentDirection jacobi_1x1
                       (with_value 0 [- 3] [[2]]
                          (projr (computeDescentDirection jacobi_1x1
                                    (with_value 0 [- 4] [[1]] solver_one_level)))))) = 2"
  by code_simp

text \<open>
  C1 as amended: after a call of \<open>computeDescentDirection\<close>, \<open>sigma\<close> is the smallest
  of the largest finite \<open>value_type\<close> and the singular values of index
  \<open>maxRank - 1\<close> of the levels whose SVD this call computed (those with a positive
  \<open>maxRank\<close>); the value of \<open>sigma\<close> before the call has no influence on the result.
\<close>

theorem sigma_is_min_of_current_call:
  assumes run: "computeDescentDirection E s = Inr s'"
  shows "sigma_m s' =
           Min (set (value_type_max #
                  map (\<lambda>i. singularValues (svd (datas_m s' ! i)) ! (maxRank (datas_m s' ! i) - 1))
                    (filter (\<lambda>i. 0 < maxRank (datas_m s' ! i)) (visited E s))))
         \<and> computeDescentDirection E (s\<lparr>sigma_m := x\<rparr>) = Inr s'"
proof -
  define s0 where "s0 = s\<lparr>sigma_m := value_type_max\<rparr>"
  have indep: "computeDescentDirection E (s\<lparr>sigma_m := x\<rparr>) = computeDescentDirection E s"
    by (simp add: computeDescentDirection_def)
  have "sigma_m s' =
           Min (set (value_type_max #
                  map (\<lambda>i. singularValues (svd (datas_m s' ! i)) ! (maxRank (datas_m s' ! i) - 1))
                    (filter (\<lambda>i. 0 < maxRank (datas_m s' ! i)) (visited E s))))"
  proof (cases "stacks_m s = []")
    case True
    with run have "s' = s0\<lparr>dq_m := replicate (length (dq_m s0)) 0\<rparr>"
      by (simp add: computeDescentDirection_def s0_def)
    with True show ?thesis by (simp add: s0_def visited_def)
  next
    case False
    show ?thesis
    proof (cases "length (stacks_m s) = 1")
      case True
      with False run obtain s1 where ds: "descent_single E s0 = Inr s1"
        and ex: "expandDqSmall s1 = Inr s'"
        by (auto simp: computeDescentDirection_def s0_def split: sum.splits)
      from descent_single_frame [OF ds] expandDqSmall_frame [OF ex] True False
      show ?thesis by (simp add: visited_def s0_def)
    next
      case many: False
      with False run obtain s1 where
        dl: "descent_levels E (length (stacks_m s)) 0 None s0 = Inr s1"
        and ex: "expandDqSmall s1 = Inr s'"
        by (auto simp: computeDescentDirection_def s0_def split: sum.splits)
      from descent_levels_sigma [OF dl] expandDqSmall_frame [OF ex] many False
      show ?thesis by (simp add: visited_def s0_def)
    qed
  qed
  with indep run show ?thesis by simp
qed

theorem sigma_is_min_of_current_call_witness:
  "\<exists>s'. computeDescentDirection jacobi_1x1 (with_value 0 [- 4] [[2]] solver_one_level) = Inr s'
        \<and> visited jacobi_1x1 (with_value 0 [- 4] [[2]] solver_one_level) = [0]
        \<and> sigma_m s' = 2
        \<and> computeDescentDirection jacobi_1x1
             ((with_value 0 [- 4] [[2]] solver_one_level)\<lparr>sigma_m := 1\<rparr>) = Inr s'"
proof -
  let ?s = "with_value 0 [- 4] [[2]] solver_one_level"
  have "\<not> isl (computeDescentDirection jacobi_1x1 ?s)"
    by code_simp
  then obtain s' where run: "computeDescentDirection jacobi_1x1 ?s = Inr s'"
    by (cases "computeDescentDirection jacobi_1x1 ?s") simp_all
  have vis: "visited jacobi_1x1 ?s = [0]"
    by code_simp
  have "sigma_m (projr (computeDescentDirection jacobi_1x1 ?s)) = 2"
    by code_simp
  with run have sg: "sigma_m s' = 2" by simp
  from sigma_is_min_of_current_call [OF run, of 1] run vis sg show ?thesis
    by blast
qed

lemma assign_at_spec:
  "distinct js \<Longrightarrow> length js \<le> length src \<Longrightarrow> \<forall>i \<in> set js. i < length v \<Longrightarrow>
   length (assign_at js v src) = length v
   \<and> (\<forall>k < length js. assign_at js v src ! (js ! k) = src ! k)
   \<and> (\<forall>j. j \<notin> set js \<longrightarrow> assign_at js v src ! j = v ! j)"
proof (induction js arbitrary: v src)
  case Nil
  then show ?case by simp
next
  case (Cons i js)
  from Cons.prems have ne: "src \<noteq> []" by auto
  from Cons.prems have d: "distinct js" "i \<notin> set js" by simp_all
  from Cons.prems ne have l: "length js \<le> length (tl src)" by (cases src) simp_all
  from Cons.prems have b: "\<forall>k \<in> set js. k < length (v[i := hd src])" by simp
  note IH = Cons.IH [OF d(1) l b]
  have at0: "assign_at (i # js) v src ! i = src ! 0"
    using IH d(2) Cons.prems(3) ne by (simp add: hd_conv_nth)
  have atk: "assign_at (i # js) v src ! (js ! k) = src ! Suc k" if "k < length js" for k
    using IH that l by (simp add: nth_tl)
  have "assign_at (i # js) v src ! ((i # js) ! k) = src ! k" if "k < length (i # js)" for k
    using that at0 atk by (cases k) simp_all
  moreover have "assign_at (i # js) v src ! j = v ! j" if "j \<notin> set (i # js)" for j
    using IH that by simp
  moreover have "length (assign_at (i # js) v src) = length v"
    using IH by simp
  ultimately show ?case by blast
qed

lemma length_segment_indices: "length (segment_indices sg) = nat (snd sg)"
  by (simp add: segment_indices_def)

lemma length_flat_indices:
  "list_all (\<lambda>sg. 0 \<le> snd sg) segs \<Longrightarrow> int (length (flat_indices segs)) = cardinal segs"
  by (induction segs) (simp_all add: flat_indices_def length_segment_indices)

lemma flat_indices_bounded:
  "segments_within segs n \<Longrightarrow> \<forall>i \<in> set (flat_indices segs). i < n"
  by (induction segs) (auto simp: flat_indices_def segments_within_def segment_indices_def)

lemma segments_within_nonneg:
  "segments_within segs n \<Longrightarrow> list_all (\<lambda>sg. 0 \<le> snd sg) segs"
  by (induction segs) (auto simp: segments_within_def)

lemma expandDqSmall_scatter:
  assumes ex: "expandDqSmall s = Inr s'"
    and dist: "distinct (flat_indices (indices (freeVariables_m s)))"
  shows "length (dq_m s') = length (dq_m s)
         \<and> length (dqSmall_m s) = length (flat_indices (indices (freeVariables_m s)))
         \<and> (\<forall>k < length (flat_indices (indices (freeVariables_m s))).
               flat_indices (indices (freeVariables_m s)) ! k < length (dq_m s')
               \<and> dq_m s' ! (flat_indices (indices (freeVariables_m s)) ! k) = dqSmall_m s ! k)
         \<and> (\<forall>i. i \<notin> set (flat_indices (indices (freeVariables_m s)))
               \<longrightarrow> dq_m s' ! i = dq_m s ! i)"
proof -
  let ?idx = "flat_indices (indices (freeVariables_m s))"
  note f = expandDqSmall_frame [OF ex]
  from f have sw: "segments_within (indices (freeVariables_m s)) (length (dq_m s))" by simp
  from length_flat_indices [OF segments_within_nonneg [OF sw]] f
  have len: "length (dqSmall_m s) = length ?idx" by simp
  note bd = flat_indices_bounded [OF sw]
  from len have le: "length ?idx \<le> length (dqSmall_m s)" by simp
  note a = assign_at_spec [OF dist le bd]
  from f have dq: "dq_m s' = assign_at ?idx (dq_m s) (dqSmall_m s)"
    by (simp add: assign_rows_def)
  from a bd len show ?thesis unfolding dq by simp
qed

text \<open>
  C8 (claimed: for every call of \<open>computeDescentDirection\<close>, \<open>dq\<close> is the full-size
  vector with \<open>dqSmall\<close> scattered at the free variables and 0 elsewhere). On a
  solver without levels the call sets \<open>dq\<close> to zero and returns before the scatter:
  for the solver as constructed on the real line, \<open>dq\<close> and \<open>dqSmall\<close> are empty
  after the call although the free variables select coordinate 0 of a tangent
  space of dimension 1.
\<close>

theorem descent_direction_scatter_counterexample:
  "computeDescentDirection jacobi_1x1 (HierarchicalIterative_of R1)
     = Inr ((HierarchicalIterative_of R1)\<lparr>sigma_m := value_type_max\<rparr>)
   \<and> dq_m ((HierarchicalIterative_of R1)\<lparr>sigma_m := value_type_max\<rparr>) = []
   \<and> dqSmall_m ((HierarchicalIterative_of R1)\<lparr>sigma_m := value_type_max\<rparr>) = []
   \<and> nv (configSpace_m ((HierarchicalIterative_of R1)\<lparr>sigma_m := value_type_max\<rparr>)) = 1
   \<and> flat_indices (indices (freeVariables_m
         ((HierarchicalIterative_of R1)\<lparr>sigma_m := value_type_max\<rparr>))) = [0]"
  by (simp add: computeDescentDirection_def HierarchicalIterative_of_def R1_def
      flat_indices_def segment_indices_def indices_def addRow_def MatrixBlocks_empty_def)

text \<open>
  C8 as amended: for every call of \<open>computeDescentDirection\<close> that returns, on a
  solver with at least one level, with canonical free variables (no coordinate
  selected twice) and with \<open>dq\<close> zero outside the free variables before the call (as
  \<open>update\<close> leaves it, \<open>update_zero_dq\<close>): \<open>dq\<close> keeps its size, \<open>dqSmall\<close> has one coordinate for each
  free variable, the \<open>k\<close>-th free coordinate of \<open>dq\<close> is the \<open>k\<close>-th coordinate of
  \<open>dqSmall\<close>, and every other coordinate of \<open>dq\<close> is 0.
\<close>

theorem descent_direction_scatter:
  assumes run: "computeDescentDirection E s = Inr s'"
    and levels: "stacks_m s \<noteq> []"
    and canonical: "distinct (flat_indices (indices (freeVariables_m s)))"
    and zero: "\<forall>i < length (dq_m s).
                 i \<notin> set (flat_indices (indices (freeVariables_m s))) \<longrightarrow> dq_m s ! i = 0"
  shows "freeVariables_m s' = freeVariables_m s
         \<and> length (dq_m s') = length (dq_m s)
         \<and> length (dqSmall_m s') = length (flat_indices (indices (freeVariables_m s)))
         \<and> (\<forall>k < length (flat_indices (indices (freeVariables_m s))).
               flat_indices (indices (freeVariables_m s)) ! k < length (dq_m s')
               \<and> dq_m s' ! (flat_indices (indices (freeVariables_m s)) ! k) = dqSmall_m s' ! k)
         \<and> (\<forall>i < length (dq_m s').
               i \<notin> set (flat_indices (indices (freeVariables_m s))) \<longrightarrow> dq_m s' ! i = 0)"
proof -
  define s0 where "s0 = s\<lparr>sigma_m := value_type_max\<rparr>"
  from run levels obtain s1 where
    pre: "stacks_m s1 = stacks_m s0 \<and> freeVariables_m s1 = freeVariables_m s0 \<and> dq_m s1 = dq_m s0"
    and ex: "expandDqSmall s1 = Inr s'"
  proof (cases "length (stacks_m s) = 1")
    case True
    with levels run obtain s1 where ds: "descent_single E s0 = Inr s1"
      and ex: "expandDqSmall s1 = Inr s'"
      by (auto simp: computeDescentDirection_def s0_def split: sum.splits)
    from descent_single_frame [OF ds] ex that show ?thesis by blast
  next
    case False
    with levels run obtain s1 where
      dl: "descent_levels E (length (stacks_m s)) 0 None s0 = Inr s1"
      and ex: "expandDqSmall s1 = Inr s'"
      by (auto simp: computeDescentDirection_def s0_def split: sum.splits)
    from descent_levels_frame [OF dl] ex that show ?thesis by blast
  qed
  from pre have fv: "freeVariables_m s1 = freeVariables_m s" and dq: "dq_m s1 = dq_m s"
    by (simp_all add: s0_def)
  from canonical fv have "distinct (flat_indices (indices (freeVariables_m s1)))" by simp
  note sc = expandDqSmall_scatter [OF ex this, unfolded fv dq]
  from expandDqSmall_frame [OF ex] fv
  have eqs: "dqSmall_m s' = dqSmall_m s1" "freeVariables_m s' = freeVariables_m s"
    by simp_all
  from sc have len: "length (dq_m s') = length (dq_m s)" by blast
  have "dq_m s' ! i = 0"
    if "i < length (dq_m s')" "i \<notin> set (flat_indices (indices (freeVariables_m s)))" for i
    using that sc zero by simp
  then have z: "\<forall>i < length (dq_m s').
      i \<notin> set (flat_indices (indices (freeVariables_m s))) \<longrightarrow> dq_m s' ! i = 0"
    by blast
  from sc have "length (dqSmall_m s') = length (flat_indices (indices (freeVariables_m s)))"
    and "\<forall>k < length (flat_indices (indices (freeVariables_m s))).
               flat_indices (indices (freeVariables_m s)) ! k < length (dq_m s')
               \<and> dq_m s' ! (flat_indices (indices (freeVariables_m s)) ! k) = dqSmall_m s' ! k"
    unfolding eqs by blast+
  with eqs(2) len z show ?thesis by blast
qed

theorem descent_direction_scatter_witness:
  "\<exists>s'. computeDescentDirection jacobi_1x1 (with_value 0 [- 4] [[2]] solver_R3) = Inr s'
        \<and> stacks_m (with_value 0 [- 4] [[2]] solver_R3) \<noteq> []
        \<and> indices (freeVariables_m (with_value 0 [- 4] [[2]] solver_R3)) = [(2, 1)]
        \<and> flat_indices (indices (freeVariables_m (with_value 0 [- 4] [[2]] solver_R3))) = [2]
        \<and> dq_m (with_value 0 [- 4] [[2]] solver_R3) = [0, 0, 0]
        \<and> dqSmall_m s' = [2] \<and> dq_m s' = [0, 0, 2]"
proof -
  let ?s = "with_value 0 [- 4] [[2]] solver_R3"
  have "\<not> isl (computeDescentDirection jacobi_1x1 ?s)"
    by code_simp
  then obtain s' where run: "computeDescentDirection jacobi_1x1 ?s = Inr s'"
    by (cases "computeDescentDirection jacobi_1x1 ?s") simp_all
  have levels: "stacks_m ?s \<noteq> []"
    by code_simp
  have segs: "indices (freeVariables_m ?s) = [(2, 1)]"
    by code_simp
  have idx: "flat_indices (indices (freeVariables_m ?s)) = [2]"
    by code_simp
  have dq: "dq_m ?s = [0, 0, 0]"
    by code_simp
  have "dqSmall_m (projr (computeDescentDirection jacobi_1x1 ?s)) = [2]"
    by code_simp
  with run have small: "dqSmall_m s' = [2]" by simp
  have canonical: "distinct (flat_indices (indices (freeVariables_m ?s)))"
    by (simp add: idx)
  have zero: "\<forall>i < length (dq_m ?s).
                i \<notin> set (flat_indices (indices (freeVariables_m ?s))) \<longrightarrow> dq_m ?s ! i = 0"
    by (simp add: idx dq less_Suc_eq numeral_3_eq_3)
  note sc = descent_direction_scatter [OF run levels canonical zero, unfolded idx dq]
  from sc have len: "length (dq_m s') = 3" by simp
  from sc small have at2: "dq_m s' ! 2 = 2" by simp
  from sc len have at0: "dq_m s' ! 0 = 0" and at1: "dq_m s' ! 1 = 0"
    by (elim conjE allE [where x = 0], simp, elim conjE allE [where x = 1], simp)
  have "dq_m s' = [0, 0, 2]"
    using list_of_length_3 [OF len] at0 at1 at2 by simp
  with run levels segs idx dq small show ?thesis by blast
qed

end
